theory Spec2Isabelle
  imports Complex_Main "HOL-Library.Sublist"
begin

section \<open>Strings as Python sees them\<close>

text \<open>
  A Python \<open>str\<close> is modelled as the list of its code points; \<open>string\<close> holds the
  code points below 256. On these the character classes are those of Python's Unicode
  tables: \<open>\w\<close> of \<open>re\<close> is an alphanumeric character or the underscore, which adds
  to the ASCII ones the codes 170, 178, 179, 181, 185, 186, 188 to 190, 192 to 214, 216 to
  246 and 248 to 255; \<open>\s\<close>, and the separator of \<open>str.split()\<close> and \<open>str.strip()\<close>,
  is one of the codes 9 to 13, 28 to 32, 133 and 160; \<open>str.lower()\<close> works character by
  character and adds 32 to the codes 65 to 90, 192 to 214 and 216 to 222.
\<close>

definition is_word_char :: "char \<Rightarrow> bool" where
  "is_word_char c =
     (let n = (of_char c :: nat)
      in if n < 128
         then (48 \<le> n \<and> n \<le> 57) \<or> (65 \<le> n \<and> n \<le> 90) \<or> (97 \<le> n \<and> n \<le> 122) \<or> n = 95
         else n = 170 \<or> (178 \<le> n \<and> n \<le> 179) \<or> n = 181 \<or> (185 \<le> n \<and> n \<le> 186)
              \<or> (188 \<le> n \<and> n \<le> 190) \<or> (192 \<le> n \<and> n \<le> 214) \<or> (216 \<le> n \<and> n \<le> 246)
              \<or> 248 \<le> n)"

definition is_space_char :: "char \<Rightarrow> bool" where
  "is_space_char c =
     (let n = (of_char c :: nat)
      in if n < 128 then (9 \<le> n \<and> n \<le> 13) \<or> (28 \<le> n \<and> n \<le> 32)
         else n = 133 \<or> n = 160)"

definition lower_char :: "char \<Rightarrow> char" where
  "lower_char c =
     (let n = (of_char c :: nat)
      in if n < 128 then (if 65 \<le> n \<and> n \<le> 90 then char_of (n + 32) else c)
         else if (192 \<le> n \<and> n \<le> 214) \<or> (216 \<le> n \<and> n \<le> 222) then char_of (n + 32)
         else c)"

definition lower :: "string \<Rightarrow> string" where
  "lower s = map lower_char s"

text \<open>\<open>s.split()\<close>: the maximal runs of characters that are not whitespace.\<close>

fun py_split :: "string \<Rightarrow> string list" where
  "py_split [] = []"
| "py_split (c # cs) =
     (if is_space_char c then py_split cs
      else (case cs of
              [] \<Rightarrow> [[c]]
            | d # _ \<Rightarrow>
                if is_space_char d then [c] # py_split cs
                else (case py_split cs of [] \<Rightarrow> [[c]] | w # ws \<Rightarrow> (c # w) # ws)))"

text \<open>\<open>' '.join(ws)\<close>.\<close>

fun join_space :: "string list \<Rightarrow> string" where
  "join_space [] = []"
| "join_space [w] = w"
| "join_space (w # v # ws) = w @ CHR '' '' # join_space (v # ws)"

text \<open>\<open>xs in ys\<close> on strings: \<open>xs\<close> occurs in \<open>ys\<close> as a contiguous block.\<close>

fun is_substring :: "string \<Rightarrow> string \<Rightarrow> bool" where
  "is_substring xs [] = (xs = [])"
| "is_substring xs (y # ys) = (prefix xs (y # ys) \<or> is_substring xs ys)"

text \<open>\<open>re.sub(r'[^\w\s]', ' ', s)\<close>.\<close>

definition punct_to_space :: "string \<Rightarrow> string" where
  "punct_to_space s =
     map (\<lambda>c. if is_word_char c \<or> is_space_char c then c else CHR '' '') s"

section \<open>\<open>_titles_match\<close>\<close>

definition normalize_title :: "string \<Rightarrow> string" where
  "normalize_title s = join_space (py_split (punct_to_space (lower s)))"

definition common_words :: "string set" where
  "common_words = {''the'', ''a'', ''an'', ''of'', ''in'', ''on'', ''at'', ''to'', ''for'',
                   ''and'', ''or'', ''with''}"

text \<open>
  The quotient \<open>len(words1 & words2) / min(len(words1), len(words2))\<close> is a Python float;
  it is modelled as the exact rational. The comparison with \<open>0.7\<close> has the same outcome
  for every pair of sets with fewer than \<open>10^14\<close> words: the float nearest to a quotient
  \<open>k / m\<close> equal to \<open>7/10\<close> is the literal \<open>0.7\<close> itself, and a quotient above \<open>7/10\<close>
  is above it by \<open>1 / (10 m)\<close> at least.
\<close>

definition titles_match :: "string \<Rightarrow> string \<Rightarrow> bool" where
  "titles_match title1 title2 =
     (let t1 = normalize_title title1;
          t2 = normalize_title title2
      in if t1 = t2 then True
         else if is_substring t1 t2 \<or> is_substring t2 t1 then True
         else (let words1 = set (py_split t1) - common_words;
                   words2 = set (py_split t2) - common_words
               in if card words1 > 0 \<and> card words2 > 0
                  then (let overlap = (of_nat (card (words1 \<inter> words2)) :: rat)
                                      / of_nat (min (card words1) (card words2))
                        in overlap > 7 / 10)
                  else False))"

section \<open>The matcher as the specification words it\<close>

text \<open>
  The canonical form of a title: lower-cased, every punctuation character (one that is
  neither a word character nor whitespace) turned into a space, every run of whitespace
  collapsed to one space, and no space left at either end.
\<close>

definition is_punctuation :: "char \<Rightarrow> bool" where
  "is_punctuation c = (\<not> is_word_char c \<and> \<not> is_space_char c)"

fun squeeze :: "string \<Rightarrow> string" where
  "squeeze [] = []"
| "squeeze (c # cs) =
     (if is_space_char c then
        (case cs of
           [] \<Rightarrow> '' ''
         | d # _ \<Rightarrow> if is_space_char d then squeeze cs else CHR '' '' # squeeze cs)
      else c # squeeze cs)"

definition trim :: "string \<Rightarrow> string" where
  "trim s = rev (dropWhile (\<lambda>c. c = CHR '' '') (rev (dropWhile (\<lambda>c. c = CHR '' '') s)))"

definition canonical_form :: "string \<Rightarrow> string" where
  "canonical_form t =
     trim (squeeze (map (\<lambda>c. if is_punctuation c then CHR '' '' else c) (map lower_char t)))"

text \<open>The stop words, and the tokens of a canonical form split at the single space.\<close>

definition stop_words :: "string set" where
  "stop_words = {''the'', ''a'', ''an'', ''of'', ''in'', ''on'', ''at'', ''to'', ''for'', ''and'',
                 ''or'', ''with''}"

fun split_on :: "char \<Rightarrow> string \<Rightarrow> string list" where
  "split_on d [] = [[]]"
| "split_on d (c # cs) =
     (if c = d then [] # split_on d cs
      else (case split_on d cs of [] \<Rightarrow> [[c]] | w # ws \<Rightarrow> (c # w) # ws))"

definition content_words :: "string \<Rightarrow> string set" where
  "content_words t = set (split_on CHR '' '' (canonical_form t)) - stop_words"

definition overlap_ratio :: "string set \<Rightarrow> string set \<Rightarrow> rat" where
  "overlap_ratio A B = of_nat (card (A \<inter> B)) / of_nat (min (card A) (card B))"

section \<open>Values, exceptions and the outside world\<close>

text \<open>
  An exception is a value. \<open>External m\<close> is an exception raised by the transport, the
  JSON decoder or the file system, whose \<open>str(e)\<close> is \<open>m\<close>; the other three are
  raised by the interpreter on a value of the wrong shape.
\<close>

datatype exn = AttributeError | TypeError | IndexError | KeyError | External string

fun exn_text :: "exn \<Rightarrow> string" where
  "exn_text (External m) = m"
| "exn_text AttributeError = ''AttributeError''"
| "exn_text TypeError = ''TypeError''"
| "exn_text IndexError = ''IndexError''"
| "exn_text KeyError = ''KeyError''"

definition then_do :: "exn + 'a \<Rightarrow> ('a \<Rightarrow> exn + 'b) \<Rightarrow> exn + 'b" where
  "then_do r f = (case r of Inl e \<Rightarrow> Inl e | Inr x \<Rightarrow> f x)"

text \<open>
  What \<open>response.json()\<close> returns. \<open>JObj\<close> holds the items of the decoded dict;
  \<open>JNum\<close> stands for a JSON number, of which the code only observes whether it is zero.
\<close>

datatype json =
    JNull
  | JBool bool
  | JNum int
  | JStr string
  | JArr "json list"
  | JObj "(string \<times> json) list"

text \<open>\<open>d.get(k, default)\<close>: only a dict has the method.\<close>

fun dict_get :: "json \<Rightarrow> string \<Rightarrow> json \<Rightarrow> exn + json" where
  "dict_get (JObj kvs) k dflt = Inr (case map_of kvs k of Some v \<Rightarrow> v | None \<Rightarrow> dflt)"
| "dict_get _ k dflt = Inl AttributeError"

text \<open>\<open>k in d\<close> for a string \<open>k\<close>: a key of a dict, an element of a list, a substring of a string.\<close>

fun py_in :: "string \<Rightarrow> json \<Rightarrow> exn + bool" where
  "py_in k (JObj kvs) = Inr (k \<in> set (map fst kvs))"
| "py_in k (JArr xs) = Inr (JStr k \<in> set xs)"
| "py_in k (JStr s) = Inr (is_substring k s)"
| "py_in k _ = Inl TypeError"

text \<open>\<open>d[k]\<close> for a string \<open>k\<close>.\<close>

fun subscript :: "json \<Rightarrow> string \<Rightarrow> exn + json" where
  "subscript (JObj kvs) k = (case map_of kvs k of Some v \<Rightarrow> Inr v | None \<Rightarrow> Inl KeyError)"
| "subscript _ k = Inl TypeError"

text \<open>The values a \<open>for\<close> loop draws from \<open>d\<close>.\<close>

fun py_iter :: "json \<Rightarrow> exn + json list" where
  "py_iter (JArr xs) = Inr xs"
| "py_iter (JObj kvs) = Inr (map (\<lambda>kv. JStr (fst kv)) kvs)"
| "py_iter (JStr s) = Inr (map (\<lambda>c. JStr [c]) s)"
| "py_iter _ = Inl TypeError"

text \<open>Truth value of a decoded value, as \<open>if v:\<close> tests it.\<close>

fun truthy :: "json \<Rightarrow> bool" where
  "truthy JNull = False"
| "truthy (JBool b) = b"
| "truthy (JNum n) = (n \<noteq> 0)"
| "truthy (JStr s) = (s \<noteq> [])"
| "truthy (JArr xs) = (xs \<noteq> [])"
| "truthy (JObj kvs) = (kvs \<noteq> [])"

text \<open>\<open>str(n)\<close> for an integer.\<close>

fun str_nat :: "nat \<Rightarrow> string" where
  "str_nat n =
     (if n < 10 then [char_of (48 + n)] else str_nat (n div 10) @ [char_of (48 + n mod 10)])"

declare str_nat.simps [simp del]

definition str_int :: "int \<Rightarrow> string" where
  "str_int i = (if i < 0 then CHR ''-'' # str_nat (nat (- i)) else str_nat (nat i))"

text \<open>The records the search produces: the dict built in \<open>search_dblp\<close>.\<close>

record paper =
  title :: string
  authors :: "json list"
  year :: json
  venue :: json
  url :: json
  ee :: json
  key :: json
  doi :: json
  source :: string

text \<open>An entry of the arXiv feed and its link elements, as the parser hands them over.\<close>

record link =
  l_title :: "string option"
  l_href :: "string option"

record arxiv_entry =
  e_title :: "string option"
  e_links :: "link list"

text \<open>
  The reply to the streamed fetch: its status, the text \<open>raise_for_status\<close> raises with
  when the status is an error, its content type, and the chunks \<open>iter_content\<close> yields
  before it either ends or raises \<open>stream_error\<close>.
\<close>

record response =
  status_code :: int
  status_text :: string
  content_type :: string
  chunks :: "string list"
  stream_error :: "exn option"

datatype request = DblpGet string | ArxivGet string | PdfGet string

text \<open>
  The outside world. Each network call is answered according to its request and to the
  number of requests the session has sent before it; \<open>open_error\<close> says for which
  paths \<open>open\<close> for writing raises; \<open>clock\<close> is \<open>datetime.now()\<close>, already formatted.
\<close>

record world =
  dblp_api :: "nat \<Rightarrow> string \<Rightarrow> exn + json"
  arxiv_api :: "nat \<Rightarrow> string \<Rightarrow> exn + arxiv_entry list"
  http_get :: "nat \<Rightarrow> string \<Rightarrow> exn + response"
  open_error :: "string \<Rightarrow> exn option"
  clock :: "nat \<Rightarrow> string"

record failure =
  f_index :: int
  f_title :: string
  f_reason :: string
  f_url :: "string option"

record metadata =
  m_paper :: paper
  download_source :: string
  download_url :: string
  download_date :: string

text \<open>
  A file is what was written to it: the sequence of \<open>write\<close> arguments, or the value
  handed to \<open>json.dump\<close>.
\<close>

datatype file_content =
    Written "string list"
  | PapersJson "paper list"
  | FailuresJson "failure list"
  | MetadataJson metadata

text \<open>The crawler object, the files on disk and the requests sent so far.\<close>

record crawler =
  output_dir :: string
  failed_downloads :: "failure list"
  files :: "string \<rightharpoonup> file_content"
  net_log :: "request list"

definition send :: "request \<Rightarrow> crawler \<Rightarrow> crawler" where
  "send r s = s\<lparr>net_log := net_log s @ [r]\<rparr>"

section \<open>\<open>search_dblp\<close>\<close>

text \<open>\<open>_extract_authors\<close>.\<close>

fun author_name :: "json \<Rightarrow> exn + json" where
  "author_name (JStr a) = Inr (JStr a)"
| "author_name a = dict_get a ''text'' (JStr [])"

fun author_names :: "json list \<Rightarrow> exn + json list" where
  "author_names [] = Inr []"
| "author_names (a # as) =
     then_do (author_name a) (\<lambda>n. then_do (author_names as) (\<lambda>ns. Inr (n # ns)))"

definition extract_authors :: "json \<Rightarrow> exn + json list" where
  "extract_authors authors_data =
     (case authors_data of
        JObj kvs \<Rightarrow>
          (case map_of kvs ''author'' of
             None \<Rightarrow> Inr []
           | Some (JArr as) \<Rightarrow> author_names as
           | Some (JStr a) \<Rightarrow> Inr [JStr a]
           | Some (JObj a) \<Rightarrow> then_do (dict_get (JObj a) ''text'' (JStr [])) (\<lambda>n. Inr [n])
           | Some _ \<Rightarrow> Inr [])
      | _ \<Rightarrow> Inr [])"

text \<open>
  The body of the loop over the hits: \<open>Inr None\<close> when the hit is filtered out,
  \<open>Inr (Some p)\<close> when \<open>p\<close> is appended, \<open>Inl e\<close> when the body raises.
\<close>

definition process_hit :: "string \<Rightarrow> string \<Rightarrow> json \<Rightarrow> exn + paper option" where
  "process_hit keyword venue_arg hit =
     then_do (dict_get hit ''info'' (JObj [])) (\<lambda>info.
     then_do (dict_get info ''title'' (JStr [])) (\<lambda>title_v.
       case title_v of
         JStr t \<Rightarrow>
           if is_substring (lower keyword) (lower t) then
             then_do (dict_get info ''authors'' (JObj [])) (\<lambda>authors_data.
             then_do (extract_authors authors_data) (\<lambda>au.
             then_do (dict_get info ''year'' (JStr [])) (\<lambda>y.
             then_do (dict_get info ''venue'' (JStr [])) (\<lambda>v.
             then_do (dict_get info ''url'' (JStr [])) (\<lambda>u.
             then_do (dict_get info ''ee'' (JStr [])) (\<lambda>e.
             then_do (dict_get info ''key'' (JStr [])) (\<lambda>k.
             then_do (dict_get info ''doi'' (JStr [])) (\<lambda>d.
               let p = \<lparr>title = t, authors = au, year = y, venue = v, url = u, ee = e,
                        key = k, doi = d, source = ''DBLP''\<rparr>
               in (case venue p of
                     JStr pv \<Rightarrow>
                       if is_substring (lower venue_arg) (lower pv) then Inr (Some p)
                       else Inr None
                   | _ \<Rightarrow> Inl AttributeError)))))))))
           else Inr None
       | _ \<Rightarrow> Inl AttributeError))"

text \<open>
  \<open>for hit in hits\<close>: the records are appended to \<open>papers\<close> as the loop goes, so an
  exception leaves those appended before it.
\<close>

fun process_hits :: "string \<Rightarrow> string \<Rightarrow> json list \<Rightarrow> paper list \<Rightarrow> paper list \<times> exn option" where
  "process_hits keyword venue_arg [] papers = (papers, None)"
| "process_hits keyword venue_arg (hit # hits) papers =
     (case process_hit keyword venue_arg hit of
        Inl e \<Rightarrow> (papers, Some e)
      | Inr None \<Rightarrow> process_hits keyword venue_arg hits papers
      | Inr (Some p) \<Rightarrow> process_hits keyword venue_arg hits (papers @ [p]))"

text \<open>
  \<open>if 'result' in data and 'hits' in data['result']\<close>, then
  \<open>data['result']['hits'].get('hit', [])\<close>: the hits to loop over, none when the
  condition is false.
\<close>

definition response_hits :: "json \<Rightarrow> exn + json list" where
  "response_hits data =
     then_do (py_in ''result'' data) (\<lambda>has_result.
       if has_result then
         then_do (subscript data ''result'') (\<lambda>result.
         then_do (py_in ''hits'' result) (\<lambda>has_hits.
           if has_hits then
             then_do (subscript result ''hits'') (\<lambda>hits_obj.
             then_do (dict_get hits_obj ''hit'' (JArr [])) (\<lambda>hits. py_iter hits))
           else Inr []))
       else Inr [])"

text \<open>The body of the \<open>try\<close> for one year, after the response has been decoded.\<close>

definition process_data :: "string \<Rightarrow> string \<Rightarrow> json \<Rightarrow> paper list \<Rightarrow> paper list \<times> exn option" where
  "process_data keyword venue_arg data papers =
     (case response_hits data of
        Inl e \<Rightarrow> (papers, Some e)
      | Inr hits \<Rightarrow> process_hits keyword venue_arg hits papers)"

definition dblp_query :: "string \<Rightarrow> string \<Rightarrow> int \<Rightarrow> string" where
  "dblp_query keyword venue_arg search_year =
     keyword @ '' venue:'' @ venue_arg @ '' year:'' @ str_int search_year"

text \<open>
  One round of \<open>for search_year in years_to_search\<close>: the request, then the \<open>try\<close> body;
  the \<open>except\<close> clause only prints, so the round ends with the papers it has.
\<close>

definition search_year_step :: "world \<Rightarrow> string \<Rightarrow> string \<Rightarrow> int \<Rightarrow> paper list \<times> crawler \<Rightarrow> paper list \<times> crawler" where
  "search_year_step w keyword venue_arg search_year st =
     (let papers = fst st; s = snd st;
          query = dblp_query keyword venue_arg search_year;
          s' = send (DblpGet query) s
      in case dblp_api w (length (net_log s)) query of
           Inl e \<Rightarrow> (papers, s')
         | Inr data \<Rightarrow> (fst (process_data keyword venue_arg data papers), s'))"

definition search_dblp :: "world \<Rightarrow> string \<Rightarrow> string \<Rightarrow> int \<Rightarrow> crawler \<Rightarrow> paper list \<times> crawler" where
  "search_dblp w keyword venue_arg year_arg s =
     (let years_to_search = [year_arg, year_arg - 1]
      in fold (search_year_step w keyword venue_arg) years_to_search ([], s))"


section \<open>\<open>search_arxiv_for_paper\<close>\<close>

text \<open>\<open>s.strip()\<close>.\<close>

definition py_strip :: "string \<Rightarrow> string" where
  "py_strip s = rev (dropWhile is_space_char (rev (dropWhile is_space_char s)))"

text \<open>
  \<open>s.replace(old, new)\<close> for a non-empty \<open>old\<close>: the occurrences of \<open>old\<close> are
  replaced from the left, without overlap.
\<close>

fun replace_all :: "string \<Rightarrow> string \<Rightarrow> string \<Rightarrow> string" where
  "replace_all old new [] = []"
| "replace_all old new (c # cs) =
     (if prefix old (c # cs) then new @ replace_all old new (drop (length old - 1) cs)
      else c # replace_all old new cs)"

text \<open>
  The queries, built before the first request. \<open>authors[0].split()[-1]\<close> raises on a
  first author that is not a string or has no word.
\<close>

definition search_title :: "string \<Rightarrow> string" where
  "search_title t = take 100 (join_space (py_split (punct_to_space t)))"

definition arxiv_queries :: "string \<Rightarrow> json list \<Rightarrow> exn + string list" where
  "arxiv_queries t au =
     (let st = search_title t;
          search_queries = [''ti:'' @ [CHR 0x22] @ st @ [CHR 0x22], ''ti:'' @ st]
      in case au of
           [] \<Rightarrow> Inr search_queries
         | a # _ \<Rightarrow>
             (case a of
                JStr name \<Rightarrow>
                  (case py_split name of
                     [] \<Rightarrow> Inl IndexError
                   | w # ws \<Rightarrow>
                       Inr (search_queries @ [''ti:'' @ st @ '' AND au:'' @ last (w # ws)]))
              | _ \<Rightarrow> Inl AttributeError))"

text \<open>
  \<open>for link in links\<close>: the first link whose \<open>title\<close> attribute is \<open>pdf\<close> decides; its
  \<open>href\<close> is returned, rewritten when it has no \<open>/pdf/\<close>. \<open>Inr None\<close>: the loop ends
  without a return.
\<close>

fun pdf_link :: "link list \<Rightarrow> exn + string option" where
  "pdf_link [] = Inr None"
| "pdf_link (l # ls) =
     (if l_title l = Some ''pdf'' then
        (case l_href l of
           None \<Rightarrow> Inl TypeError
         | Some pdf_url \<Rightarrow>
             Inr (Some (if \<not> is_substring ''/pdf/'' pdf_url
                        then replace_all ''/abs/'' ''/pdf/'' pdf_url @ ''.pdf''
                        else pdf_url)))
      else pdf_link ls)"

text \<open>\<open>for entry in entries\<close>.\<close>

fun scan_entries :: "string \<Rightarrow> arxiv_entry list \<Rightarrow> exn + string option" where
  "scan_entries t [] = Inr None"
| "scan_entries t (entry # entries) =
     (case e_title entry of
        None \<Rightarrow> Inl AttributeError
      | Some raw \<Rightarrow>
          if titles_match t (py_strip raw) then
            (case pdf_link (e_links entry) of
               Inl e \<Rightarrow> Inl e
             | Inr (Some pdf_url) \<Rightarrow> Inr (Some pdf_url)
             | Inr None \<Rightarrow> scan_entries t entries)
          else scan_entries t entries)"

text \<open>\<open>for query in search_queries\<close>.\<close>

fun run_queries :: "world \<Rightarrow> string \<Rightarrow> string list \<Rightarrow> crawler \<Rightarrow> (exn + string option) \<times> crawler" where
  "run_queries w t [] s = (Inr None, s)"
| "run_queries w t (query # queries) s =
     (let s' = send (ArxivGet query) s
      in case arxiv_api w (length (net_log s)) query of
           Inl e \<Rightarrow> (Inl e, s')
         | Inr entries \<Rightarrow>
             (case scan_entries t entries of
                Inl e \<Rightarrow> (Inl e, s')
              | Inr (Some pdf_url) \<Rightarrow> (Inr (Some pdf_url), s')
              | Inr None \<Rightarrow> run_queries w t queries s'))"

text \<open>The whole function: every exception ends in \<open>return None\<close>.\<close>

definition search_arxiv_for_paper :: "world \<Rightarrow> string \<Rightarrow> json list \<Rightarrow> crawler \<Rightarrow> string option \<times> crawler" where
  "search_arxiv_for_paper w t au s =
     (case arxiv_queries t au of
        Inl e \<Rightarrow> (None, s)
      | Inr search_queries \<Rightarrow>
          (case run_queries w t search_queries s of
             (Inl e, s') \<Rightarrow> (None, s')
           | (Inr r, s') \<Rightarrow> (r, s')))"

section \<open>\<open>download_paper\<close>\<close>

text \<open>\<open>re.sub(r'[^\w\s-]', '', title)[:80]\<close>, then \<open>re.sub(r'[-\s]+', '-', ...)\<close>.\<close>

definition is_sep_char :: "char \<Rightarrow> bool" where
  "is_sep_char c = (c = CHR ''-'' \<or> is_space_char c)"

fun hyphenate :: "string \<Rightarrow> string" where
  "hyphenate [] = []"
| "hyphenate (c # cs) =
     (if is_sep_char c then
        (case cs of
           [] \<Rightarrow> ''-''
         | d # _ \<Rightarrow> if is_sep_char d then hyphenate cs else CHR ''-'' # hyphenate cs)
      else c # hyphenate cs)"

definition safe_title :: "string \<Rightarrow> string" where
  "safe_title t =
     hyphenate (take 80 (filter (\<lambda>c. is_word_char c \<or> is_space_char c \<or> c = CHR ''-'') t))"

text \<open>\<open>f"{index:03d}"\<close>.\<close>

definition zfill :: "nat \<Rightarrow> string \<Rightarrow> string" where
  "zfill n s = replicate (n - length s) CHR ''0'' @ s"

definition pad3 :: "int \<Rightarrow> string" where
  "pad3 i = (if i < 0 then CHR ''-'' # zfill 2 (str_nat (nat (- i))) else zfill 3 (str_nat (nat i)))"

text \<open>\<open>os.path.join\<close> of two components.\<close>

definition path_join :: "string \<Rightarrow> string \<Rightarrow> string" where
  "path_join a b =
     (if prefix ''/'' b then b
      else if a = [] \<or> suffix ''/'' a then a @ b
      else a @ ''/'' @ b)"

definition pdf_path :: "crawler \<Rightarrow> paper \<Rightarrow> int \<Rightarrow> string" where
  "pdf_path s p index =
     path_join (output_dir s) (pad3 index @ ''_'' @ safe_title (title p) @ ''.pdf'')"

definition metadata_path :: "crawler \<Rightarrow> int \<Rightarrow> string" where
  "metadata_path s index = path_join (output_dir s) (pad3 index @ ''_metadata.json'')"

definition write_file :: "string \<Rightarrow> file_content \<Rightarrow> crawler \<Rightarrow> crawler" where
  "write_file path content s = s\<lparr>files := (files s)(path \<mapsto> content)\<rparr>"

definition record_failure :: "failure \<Rightarrow> crawler \<Rightarrow> crawler" where
  "record_failure f s = s\<lparr>failed_downloads := failed_downloads s @ [f]\<rparr>"

text \<open>
  The choice of the source, steps 1 and 2 of \<open>download_paper\<close>: the URL and the name of
  its source, or nothing. \<open>paper['ee'].endswith\<close> raises on a value that is not a string.
\<close>

definition select_source :: "string option \<Rightarrow> json \<Rightarrow> exn + (string \<times> string) option" where
  "select_source arxiv_url ee_v =
     (let chosen = (case arxiv_url of
                      None \<Rightarrow> None
                    | Some u \<Rightarrow> if u \<noteq> [] then Some (u, ''arXiv'') else None)
      in if chosen = None \<and> truthy ee_v then
           (case ee_v of
              JStr e \<Rightarrow>
                if suffix ''.pdf'' e \<or> is_substring ''arxiv.org/pdf'' e
                  then Inr (Some (e, ''DBLP direct link''))
                else if is_substring ''ojs.aaai.org'' e \<or> is_substring ''doi.org/10.1609'' e
                  then Inr None
                else Inr (Some (e, ''DBLP EE link''))
            | _ \<Rightarrow> Inl AttributeError)
         else Inr chosen)"

text \<open>\<open>response.raise_for_status()\<close>: raises on the statuses 400 to 599.\<close>

definition raise_for_status :: "response \<Rightarrow> exn option" where
  "raise_for_status r =
     (if 400 \<le> status_code r \<and> status_code r < 600 then Some (External (status_text r))
      else None)"

text \<open>
  The body of the \<open>try\<close>: it returns a boolean or raises. The file is opened for writing
  at the target path and the chunks are written as they arrive, so an exception of the
  stream leaves the chunks written before it. The test of the content type only prints.
\<close>

definition try_download :: "world \<Rightarrow> paper \<Rightarrow> int \<Rightarrow> string \<Rightarrow> string \<Rightarrow> crawler \<Rightarrow> (exn + bool) \<times> crawler" where
  "try_download w p index pdf_url src s =
     (let s1 = send (PdfGet pdf_url) s
      in case http_get w (length (net_log s)) pdf_url of
           Inl e \<Rightarrow> (Inl e, s1)
         | Inr resp \<Rightarrow>
             if status_code resp = 403 then
               (Inr False,
                record_failure \<lparr>f_index = index, f_title = title p,
                                f_reason = ''403 Forbidden from '' @ src,
                                f_url = Some pdf_url\<rparr> s1)
             else
               (case raise_for_status resp of
                  Some e \<Rightarrow> (Inl e, s1)
                | None \<Rightarrow>
                    (case open_error w (pdf_path s p index) of
                       Some e \<Rightarrow> (Inl e, s1)
                     | None \<Rightarrow>
                         (let s2 = write_file (pdf_path s p index) (Written (chunks resp)) s1
                          in case stream_error resp of
                               Some e \<Rightarrow> (Inl e, s2)
                             | None \<Rightarrow>
                                 (let md = \<lparr>m_paper = p, download_source = src,
                                            download_url = pdf_url,
                                            download_date = clock w (length (net_log s2))\<rparr>
                                  in case open_error w (metadata_path s index) of
                                       Some e \<Rightarrow> (Inl e, s2)
                                     | None \<Rightarrow>
                                         (Inr True,
                                          write_file (metadata_path s index) (MetadataJson md) s2))))))"

text \<open>
  \<open>download_paper\<close>. The result is \<open>Inr True\<close> or \<open>Inr False\<close> when the function returns,
  \<open>Inl e\<close> when it raises; the crawler is returned as the call leaves it.
\<close>

definition download_paper :: "world \<Rightarrow> paper \<Rightarrow> int \<Rightarrow> crawler \<Rightarrow> (exn + bool) \<times> crawler" where
  "download_paper w p index s =
     (if files s (pdf_path s p index) \<noteq> None then (Inr True, s)
      else
        (case search_arxiv_for_paper w (title p) (authors p) s of
           (arxiv_url, s1) \<Rightarrow>
             (case select_source arxiv_url (ee p) of
                Inl e \<Rightarrow> (Inl e, s1)
              | Inr None \<Rightarrow>
                  (Inr False,
                   record_failure \<lparr>f_index = index, f_title = title p,
                                   f_reason = ''No accessible PDF URL found'',
                                   f_url = None\<rparr> s1)
              | Inr (Some (pdf_url, src)) \<Rightarrow>
                  (case try_download w p index pdf_url src s1 of
                     (Inr ok, s2) \<Rightarrow> (Inr ok, s2)
                   | (Inl e, s2) \<Rightarrow>
                       (Inr False,
                        record_failure \<lparr>f_index = index, f_title = title p,
                                        f_reason = exn_text e,
                                        f_url = Some pdf_url\<rparr> s2)))))"

section \<open>\<open>save_results\<close> and \<open>run\<close>\<close>

definition nl :: string where
  "nl = [CHR 0x0A]"

definition fail_lines :: "failure \<Rightarrow> string list" where
  "fail_lines f =
     [nl @ ''['' @ str_int (f_index f) @ ''] '' @ f_title f @ nl,
      ''    Reason: '' @ f_reason f @ nl]
     @ (case f_url f of None \<Rightarrow> [] | Some u \<Rightarrow> [''    URL: '' @ u @ nl])"

definition report_lines :: "string \<Rightarrow> paper list \<Rightarrow> failure list \<Rightarrow> string list" where
  "report_lines now papers failed =
     [''Download Report - '' @ now @ nl,
      replicate 80 CHR ''='' @ nl @ nl,
      ''Total papers found: '' @ str_int (int (length papers)) @ nl,
      ''Successfully downloaded: '' @ str_int (int (length papers) - int (length failed)) @ nl,
      ''Failed downloads: '' @ str_int (int (length failed)) @ nl @ nl]
     @ (if failed \<noteq> [] then
          [''Failed Downloads:'' @ nl, replicate 80 CHR ''-'' @ nl] @ concat (map fail_lines failed)
        else [])"

text \<open>
  \<open>save_results\<close>: \<open>None\<close> when it returns, \<open>Some e\<close> when opening one of the files
  raises. The report is written inside the branch of the non-empty failure list.
\<close>

definition save_results :: "world \<Rightarrow> paper list \<Rightarrow> crawler \<Rightarrow> exn option \<times> crawler" where
  "save_results w papers s =
     (let papers_file = path_join (output_dir s) ''all_papers.json''
      in case open_error w papers_file of
           Some e \<Rightarrow> (Some e, s)
         | None \<Rightarrow>
             (let s1 = write_file papers_file (PapersJson papers) s
              in if failed_downloads s1 \<noteq> [] then
                   (let failed_file = path_join (output_dir s1) ''failed_downloads.json''
                    in case open_error w failed_file of
                         Some e \<Rightarrow> (Some e, s1)
                       | None \<Rightarrow>
                           (let s2 = write_file failed_file (FailuresJson (failed_downloads s1)) s1;
                                report_file = path_join (output_dir s2) ''download_report.txt''
                            in case open_error w report_file of
                                 Some e \<Rightarrow> (Some e, s2)
                               | None \<Rightarrow>
                                   (None,
                                    write_file report_file
                                      (Written (report_lines (clock w (length (net_log s2)))
                                                  papers (failed_downloads s2))) s2)))
                 else (None, s1)))"

text \<open>
  \<open>for i, paper in enumerate(papers, 1)\<close> with its counter \<open>success_count\<close>; an exception
  of \<open>download_paper\<close> leaves the loop.
\<close>

fun download_all :: "world \<Rightarrow> paper list \<Rightarrow> int \<Rightarrow> int \<Rightarrow> crawler \<Rightarrow> (exn + int) \<times> crawler" where
  "download_all w [] i success_count s = (Inr success_count, s)"
| "download_all w (p # ps) i success_count s =
     (case download_paper w p i s of
        (Inl e, s') \<Rightarrow> (Inl e, s')
      | (Inr ok, s') \<Rightarrow>
          download_all w ps (i + 1) (if ok then success_count + 1 else success_count) s')"

text \<open>\<open>run\<close>: \<open>None\<close> when it returns, \<open>Some e\<close> when it raises.\<close>

definition run :: "world \<Rightarrow> string \<Rightarrow> string \<Rightarrow> int \<Rightarrow> crawler \<Rightarrow> exn option \<times> crawler" where
  "run w keyword venue_arg year_arg s =
     (case search_dblp w keyword venue_arg year_arg s of
        (papers, s1) \<Rightarrow>
          if papers = [] then (None, s1)
          else
            (case download_all w papers 1 0 s1 of
               (Inl e, s2) \<Rightarrow> (Some e, s2)
             | (Inr success_count, s2) \<Rightarrow> save_results w papers s2))"

text \<open>The crawler as \<open>__init__\<close> leaves it, on a disk holding the files \<open>fs\<close>.\<close>

definition init_crawler :: "string \<Rightarrow> (string \<rightharpoonup> file_content) \<Rightarrow> crawler" where
  "init_crawler dir fs = \<lparr>output_dir = dir, failed_downloads = [], files = fs, net_log = []\<rparr>"


section \<open>Notions of the specification\<close>

text \<open>The two URL tests of the source selection policy, named as the specification does.\<close>

definition direct_pdf :: "string \<Rightarrow> bool" where
  "direct_pdf e = (suffix ''.pdf'' e \<or> is_substring ''arxiv.org/pdf'' e)"

definition paywalled :: "string \<Rightarrow> bool" where
  "paywalled e = (is_substring ''ojs.aaai.org'' e \<or> is_substring ''doi.org/10.1609'' e)"

text \<open>The URL taken from a PDF-typed link with the target \<open>h\<close>.\<close>

definition pdf_url_of :: "string \<Rightarrow> string" where
  "pdf_url_of h =
     (if is_substring ''/pdf/'' h then h else replace_all ''/abs/'' ''/pdf/'' h @ ''.pdf'')"

section \<open>Concrete worlds and inputs\<close>

definition start :: crawler where
  "start = init_crawler ''out'' Map.empty"

text \<open>A world in which the indexes answer with nothing and every fetch fails.\<close>

definition quiet_world :: world where
  "quiet_world =
     \<lparr>dblp_api = (\<lambda>n q. Inr (JObj [])),
      arxiv_api = (\<lambda>n q. Inr []),
      http_get = (\<lambda>n u. Inl (External ''unreachable'')),
      open_error = (\<lambda>path. None),
      clock = (\<lambda>n. ''2025-01-01T00:00:00'')\<rparr>"

definition abs_only_entry :: arxiv_entry where
  "abs_only_entry =
     \<lparr>e_title = Some ''Graph Nets'',
      e_links = [\<lparr>l_title = None, l_href = Some ''http://arxiv.org/abs/2401.00001v1''\<rparr>]\<rparr>"

definition pdf_entry :: arxiv_entry where
  "pdf_entry =
     \<lparr>e_title = Some '' Graph Nets '',
      e_links = [\<lparr>l_title = None, l_href = Some ''http://arxiv.org/abs/2401.00002v1''\<rparr>,
                 \<lparr>l_title = Some ''pdf'', l_href = Some ''http://arxiv.org/abs/2401.00002v1''\<rparr>]\<rparr>"

definition abs_only_world :: world where
  "abs_only_world = quiet_world\<lparr>arxiv_api := (\<lambda>n q. Inr [abs_only_entry])\<rparr>"

definition two_entries_world :: world where
  "two_entries_world = quiet_world\<lparr>arxiv_api := (\<lambda>n q. Inr [abs_only_entry, pdf_entry])\<rparr>"

definition ojs_paper :: paper where
  "ojs_paper =
     \<lparr>title = ''Graph Nets'', authors = [JStr ''Ada Lovelace''], year = JStr ''2024'',
      venue = JStr ''AAAI'', url = JStr ''https://dblp.org/rec/conf/aaai/L24'',
      ee = JStr ''https://ojs.aaai.org/index.php/AAAI/article/view/1'',
      key = JStr ''conf/aaai/L24'', doi = JStr ''10.1609/aaai.v38i1.1'', source = ''DBLP''\<rparr>"

section \<open>The bibliographic reply, as the specification shapes it\<close>

text \<open>
  The records one year's reply contributes to the list: none when the request, the status
  check or the decoding raised, otherwise those appended while the reply was processed.
\<close>

definition year_records :: "string \<Rightarrow> string \<Rightarrow> exn + json \<Rightarrow> paper list" where
  "year_records keyword venue_arg reply =
     (case reply of Inl e \<Rightarrow> [] | Inr data \<Rightarrow> fst (process_data keyword venue_arg data []))"

text \<open>
  A reply of the shape \<open>{result: {hits: {hit: [{info: {title, authors, year, venue, url,
  ee, key, doi}}]}}}\<close>, built from the hits it carries.
\<close>

definition hit_json :: "paper \<Rightarrow> json" where
  "hit_json h =
     JObj [(''info'',
            JObj [(''title'', JStr (title h)),
                  (''authors'', JObj [(''author'', JArr (authors h))]),
                  (''year'', year h), (''venue'', venue h), (''url'', url h),
                  (''ee'', ee h), (''key'', key h), (''doi'', doi h)])]"

definition reply_json :: "paper list \<Rightarrow> json" where
  "reply_json hs = JObj [(''result'', JObj [(''hits'', JObj [(''hit'', JArr (map hit_json hs))])])]"




definition from_dblp :: "paper \<Rightarrow> paper" where
  "from_dblp h = h\<lparr>source := ''DBLP''\<rparr>"

definition kg_aaai :: paper where
  "kg_aaai =
     \<lparr>title = ''Knowledge Graph Completion'', authors = [JStr ''Ada Lovelace''],
      year = JStr ''2025'', venue = JStr ''AAAI'', url = JStr ''https://dblp.org/rec/1'',
      ee = JStr ''https://example.org/kgc.pdf'', key = JStr ''conf/aaai/1'', doi = JStr '''',
      source = ''''\<rparr>"


definition kg_two_venues :: paper where
  "kg_two_venues =
     kg_aaai\<lparr>title := ''Temporal Knowledge Graph Reasoning'',
             venue := JArr [JStr ''AAAI'', JStr ''IAAI'']\<rparr>"

definition kg_dropped :: paper where
  "kg_dropped = kg_aaai\<lparr>title := ''Knowledge Graph Embedding''\<rparr>"

definition kg_earlier :: paper where
  "kg_earlier =
     kg_aaai\<lparr>title := ''A Survey of knowledge graphs'', year := JStr ''2024'',
             venue := JStr ''Proc. aaai''\<rparr>"


text \<open>The first year's reply holds a hit with a list of venues between two good hits.\<close>

definition faulty_hit_world :: world where
  "faulty_hit_world =
     quiet_world\<lparr>dblp_api := (\<lambda>n q.
        if q = ''knowledge graph venue:AAAI year:2025''
        then Inr (reply_json [kg_aaai, kg_two_venues, kg_dropped])
        else Inr (reply_json [kg_earlier]))\<rparr>"

text \<open>The first year's request fails.\<close>

definition first_year_down_world :: world where
  "first_year_down_world =
     quiet_world\<lparr>dblp_api := (\<lambda>n q.
        if q = ''knowledge graph venue:AAAI year:2025'' then Inl (External ''timed out'')
        else Inr (reply_json [kg_earlier]))\<rparr>"

section \<open>Fetches and concrete downloads\<close>

text \<open>A network fetch of an artifact, among the requests of the session.\<close>

fun is_fetch :: "request \<Rightarrow> bool" where
  "is_fetch (PdfGet u) = True"
| "is_fetch _ = False"

definition found_paper :: paper where
  "found_paper = from_dblp kg_aaai"

definition ok_response :: response where
  "ok_response =
     \<lparr>status_code = 200, status_text = '''', content_type = ''application/pdf'',
      chunks = [''%PDF-1.4 first'', '' second''], stream_error = None\<rparr>"

text \<open>The search finds one paper in 2025; the resolver finds nothing; the fetch succeeds.\<close>

definition success_world :: world where
  "success_world =
     quiet_world\<lparr>dblp_api := (\<lambda>n q.
                    if q = ''knowledge graph venue:AAAI year:2025'' then Inr (reply_json [kg_aaai])
                    else Inr (reply_json [])),
                 http_get := (\<lambda>n u. Inr ok_response)\<rparr>"

text \<open>The same, but the server answers 403.\<close>

definition forbidden_world :: world where
  "forbidden_world =
     success_world\<lparr>http_get := (\<lambda>n u.
        Inr (ok_response\<lparr>status_code := 403, status_text := ''403 Client Error'', chunks := []\<rparr>))\<rparr>"

text \<open>The same, but the connection breaks after the first chunk.\<close>

definition broken_stream_world :: world where
  "broken_stream_world =
     success_world\<lparr>http_get := (\<lambda>n u.
        Inr (ok_response\<lparr>chunks := [''%PDF-1.4 first''],
                          stream_error := Some (External ''Connection broken'')\<rparr>))\<rparr>"


section \<open>The title matcher\<close>

subsection \<open>Splitting and joining\<close>

lemma is_space_char_blank: "is_space_char CHR '' ''"
  by (simp add: is_space_char_def)

lemma py_split_Cons_cases:
  assumes "\<not> is_space_char c"
  shows "py_split (c # cs) = [[c]] \<or> py_split (c # cs) = [c] # py_split cs
         \<or> (\<exists>w ws. py_split cs = w # ws \<and> py_split (c # cs) = (c # w) # ws)"
proof (cases cs)
  case Nil
  with assms show ?thesis by simp
next
  case (Cons d ds)
  have "py_split (c # cs) =
          (if is_space_char d then [c] # py_split cs
           else (case py_split cs of [] \<Rightarrow> [[c]] | w # ws \<Rightarrow> (c # w) # ws))"
    using assms by (simp only: Cons py_split.simps(2) list.case if_False)
  then show ?thesis by (cases "py_split cs") (auto split: if_splits)
qed

lemma py_split_token:
  "w \<in> set (py_split s) \<Longrightarrow> w \<noteq> [] \<and> (\<forall>c \<in> set w. \<not> is_space_char c)"
proof (induction s arbitrary: w)
  case Nil
  then show ?case by simp
next
  case (Cons c cs)
  show ?case
  proof (cases "is_space_char c")
    case True
    with Cons show ?thesis by simp
  next
    case False
    from py_split_Cons_cases [OF False, of cs]
    consider "py_split (c # cs) = [[c]]" | "py_split (c # cs) = [c] # py_split cs"
      | w' ws where "py_split cs = w' # ws" "py_split (c # cs) = (c # w') # ws"
      by blast
    then show ?thesis
    proof cases
      case 1
      with Cons.prems False show ?thesis by simp
    next
      case 2
      with Cons.prems False Cons.IH show ?thesis by auto
    next
      case 3
      with Cons.prems False Cons.IH [of w'] Cons.IH [of w] show ?thesis by auto
    qed
  qed
qed

lemma py_split_app_token:
  assumes "w \<noteq> []" "\<forall>c \<in> set w. \<not> is_space_char c"
  shows "py_split (w @ CHR '' '' # rest) = w # py_split rest"
  using assms
proof (induction w)
  case Nil
  then show ?case by simp
next
  case (Cons c w)
  show ?case
  proof (cases w)
    case Nil
    with Cons.prems show ?thesis by (simp add: is_space_char_blank)
  next
    case (Cons d ds)
    with Cons.prems Cons.IH show ?thesis by simp
  qed
qed

lemma py_split_single:
  assumes "w \<noteq> []" "\<forall>c \<in> set w. \<not> is_space_char c"
  shows "py_split w = [w]"
  using assms
proof (induction w)
  case Nil
  then show ?case by simp
next
  case (Cons c w)
  show ?case
  proof (cases w)
    case Nil
    with Cons.prems show ?thesis by simp
  next
    case (Cons d ds)
    with Cons.prems Cons.IH show ?thesis by simp
  qed
qed

lemma py_split_join:
  "\<forall>w \<in> set ws. w \<noteq> [] \<and> (\<forall>c \<in> set w. \<not> is_space_char c) \<Longrightarrow> py_split (join_space ws) = ws"
proof (induction ws rule: join_space.induct)
  case 1
  then show ?case by simp
next
  case (2 w)
  then show ?case by (simp add: py_split_single)
next
  case (3 w v ws)
  then show ?case by (simp add: py_split_app_token)
qed

lemma split_on_nonempty: "split_on d s \<noteq> []"
  by (induction s) (auto split: list.splits)

lemma split_on_single: "d \<notin> set w \<Longrightarrow> split_on d w = [w]"
  by (induction w) (auto split: list.splits)

lemma split_on_app: "d \<notin> set w \<Longrightarrow> split_on d (w @ d # rest) = w # split_on d rest"
  by (induction w) (auto split: list.splits)

lemma split_on_join:
  "ws \<noteq> [] \<Longrightarrow> \<forall>w \<in> set ws. CHR '' '' \<notin> set w \<Longrightarrow> split_on CHR '' '' (join_space ws) = ws"
proof (induction ws rule: join_space.induct)
  case 1
  then show ?case by simp
next
  case (2 w)
  then show ?case by (simp add: split_on_single)
next
  case (3 w v ws)
  then show ?case by (simp add: split_on_app)
qed

lemma is_substring_Nil: "is_substring [] ys"
  by (cases ys) simp_all

lemma is_substring_iff: "is_substring xs ys \<longleftrightarrow> (\<exists>ps ss. ys = ps @ xs @ ss)"
proof (induction ys)
  case Nil
  then show ?case by auto
next
  case (Cons y ys)
  show ?case
  proof
    assume "is_substring xs (y # ys)"
    then consider "prefix xs (y # ys)" | "is_substring xs ys" by auto
    then show "\<exists>ps ss. y # ys = ps @ xs @ ss"
    proof cases
      case 1
      then obtain ss where "y # ys = xs @ ss" by (auto simp: prefix_def)
      then have "y # ys = [] @ xs @ ss" by simp
      then show ?thesis by blast
    next
      case 2
      with Cons.IH obtain ps ss where "ys = ps @ xs @ ss" by blast
      then have "y # ys = (y # ps) @ xs @ ss" by simp
      then show ?thesis by blast
    qed
  next
    assume "\<exists>ps ss. y # ys = ps @ xs @ ss"
    then obtain ps ss where eq: "y # ys = ps @ xs @ ss" by blast
    show "is_substring xs (y # ys)"
    proof (cases ps)
      case Nil
      with eq have "prefix xs (y # ys)" by (simp add: prefix_def)
      then show ?thesis by simp
    next
      case (Cons p ps')
      with eq have "ys = ps' @ xs @ ss" by simp
      with Cons.IH have "is_substring xs ys" by blast
      then show ?thesis by simp
    qed
  qed
qed


subsection \<open>The canonical form is what the code computes\<close>

lemma py_split_step:
  "py_split (c # cs) =
     (if is_space_char c then py_split cs
      else if cs = [] then [[c]]
      else if is_space_char (hd cs) then [c] # py_split cs
      else (case py_split cs of [] \<Rightarrow> [[c]] | w # ws \<Rightarrow> (c # w) # ws))"
  by (cases cs) simp_all

lemma squeeze_step:
  "squeeze (c # cs) =
     (if is_space_char c then
        (if cs = [] then '' '' else if is_space_char (hd cs) then squeeze cs
         else CHR '' '' # squeeze cs)
      else c # squeeze cs)"
  by (cases cs) simp_all

lemma py_split_Nil_iff: "py_split s = [] \<longleftrightarrow> (\<forall>c \<in> set s. is_space_char c)"
proof (induction s)
  case Nil
  then show ?case by simp
next
  case (Cons c cs)
  show ?case
  proof (cases "is_space_char c")
    case True
    with Cons show ?thesis by simp
  next
    case False
    from py_split_Cons_cases [OF False, of cs] have "py_split (c # cs) \<noteq> []" by auto
    with False show ?thesis by auto
  qed
qed

lemma join_space_Cons: "join_space (w # ws) = (if ws = [] then w else w @ CHR '' '' # join_space ws)"
  by (cases ws) simp_all

text \<open>
  Squeezing keeps one space where the string starts with whitespace, one where it ends
  with whitespace after a word, and the words joined by single spaces in between.
\<close>

lemma squeeze_split:
  "squeeze s =
     (if s \<noteq> [] \<and> is_space_char (hd s) then '' '' else [])
     @ join_space (py_split s)
     @ (if py_split s \<noteq> [] \<and> is_space_char (last s) then '' '' else [])"
proof (induction s)
  case Nil
  then show ?case by simp
next
  case (Cons c cs)
  note IH = Cons.IH
  show ?case
  proof (cases "is_space_char c")
    case True
    note sp = this
    have ps: "py_split (c # cs) = py_split cs"
      using sp by (simp only: py_split_step if_True)
    show ?thesis
    proof (cases "cs = []")
      case True
      with sp show ?thesis by simp
    next
      case False
      note ne = this
      show ?thesis
      proof (cases "is_space_char (hd cs)")
        case True
        have sq: "squeeze (c # cs) = squeeze cs"
          using sp ne True by (simp only: squeeze_step if_True if_False)
        show ?thesis unfolding sq ps IH using sp ne True by simp
      next
        case False
        have sq: "squeeze (c # cs) = CHR '' '' # squeeze cs"
          using sp ne False by (simp only: squeeze_step if_True if_False)
        show ?thesis unfolding sq ps IH using sp ne False by simp
      qed
    qed
  next
    case False
    note nsp = this
    have sq: "squeeze (c # cs) = c # squeeze cs" using nsp by (simp only: squeeze_step if_False)
    show ?thesis
    proof (cases "cs = []")
      case True
      with nsp show ?thesis by simp
    next
      case False
      note ne = this
      show ?thesis
      proof (cases "is_space_char (hd cs)")
        case True
        note hsp = this
        have ps: "py_split (c # cs) = [c] # py_split cs"
          using nsp ne True by (simp only: py_split_step if_True if_False)
        show ?thesis
        proof (cases "py_split cs = []")
          case True
          then have "\<forall>d \<in> set cs. is_space_char d" by (simp add: py_split_Nil_iff)
          with ne have "is_space_char (last cs)" by simp
          then show ?thesis unfolding sq ps IH using True ne hsp nsp by simp
        next
          case False
          then show ?thesis unfolding sq ps IH using ne hsp nsp
            by (simp add: join_space_Cons)
        qed
      next
        case False
        with ne have "\<not> (\<forall>d \<in> set cs. is_space_char d)" by (cases cs) auto
        then have "py_split cs \<noteq> []" by (simp add: py_split_Nil_iff)
        then obtain w ws where wws: "py_split cs = w # ws" by (cases "py_split cs") auto
        have "py_split (c # cs) = (case py_split cs of [] \<Rightarrow> [[c]] | w # ws \<Rightarrow> (c # w) # ws)"
          using nsp ne False by (simp only: py_split_step if_True if_False)
        then have ps: "py_split (c # cs) = (c # w) # ws" unfolding wws by simp
        have js: "join_space ((c # w) # ws) = c # join_space (w # ws)"
          by (simp add: join_space_Cons)
        show ?thesis unfolding sq ps IH wws js using ne False nsp by simp
      qed
    qed
  qed
qed

lemma join_space_ends:
  assumes "ws \<noteq> []" "\<forall>w \<in> set ws. w \<noteq> [] \<and> (\<forall>c \<in> set w. \<not> is_space_char c)"
  shows "join_space ws \<noteq> [] \<and> hd (join_space ws) \<noteq> CHR '' '' \<and> last (join_space ws) \<noteq> CHR '' ''"
  using assms
proof (induction ws rule: join_space.induct)
  case 1
  then show ?case by simp
next
  case (2 w)
  then have "w \<noteq> []" "\<not> is_space_char (hd w)" "\<not> is_space_char (last w)" by simp_all
  then show ?case using is_space_char_blank by auto
next
  case (3 w v ws)
  then have "w \<noteq> []" "\<not> is_space_char (hd w)" by simp_all
  moreover from 3 have "join_space (v # ws) \<noteq> [] \<and> last (join_space (v # ws)) \<noteq> CHR '' ''"
    by simp
  ultimately show ?case using is_space_char_blank by auto
qed

lemma trim_padded:
  assumes "j = [] \<or> (hd j \<noteq> CHR '' '' \<and> last j \<noteq> CHR '' '')"
    and "pre = [] \<or> pre = '' ''" "post = [] \<or> (post = '' '' \<and> j \<noteq> [])"
  shows "trim (pre @ j @ post) = j"
proof (cases "j = []")
  case True
  with assms show ?thesis by (auto simp: trim_def)
next
  case False
  with assms have h: "hd j \<noteq> CHR '' ''" and l: "last j \<noteq> CHR '' ''" by simp_all
  from False h have d1: "dropWhile (\<lambda>c. c = CHR '' '') j = j" by (cases j) auto
  from False l have d2: "dropWhile (\<lambda>c. c = CHR '' '') (rev j) = rev j"
    by (cases "rev j") (auto simp: last_rev [symmetric])
  have front: "dropWhile (\<lambda>c. c = CHR '' '') (pre @ j @ post) = j @ post"
    using assms(2) False h by (cases j) auto
  have rear: "dropWhile (\<lambda>c. c = CHR '' '') (rev (j @ post)) = rev j"
    using assms(3) d2 by auto
  show ?thesis unfolding trim_def front rear by simp
qed

lemma trim_squeeze: "trim (squeeze s) = join_space (py_split s)"
proof -
  let ?j = "join_space (py_split s)"
  have tok: "\<forall>w \<in> set (py_split s). w \<noteq> [] \<and> (\<forall>c \<in> set w. \<not> is_space_char c)"
    using py_split_token by blast
  have j: "?j = [] \<or> (hd ?j \<noteq> CHR '' '' \<and> last ?j \<noteq> CHR '' '')"
    using join_space_ends [OF _ tok] by (cases "py_split s = []") auto
  have ne: "py_split s \<noteq> [] \<Longrightarrow> ?j \<noteq> []" using join_space_ends [OF _ tok] by simp
  show ?thesis
    unfolding squeeze_split [of s]
    by (rule trim_padded [OF j]) (use ne in auto)
qed

lemma canonical_form_normalize: "canonical_form t = normalize_title t"
proof -
  have "map (\<lambda>c. if is_punctuation c then CHR '' '' else c) (map lower_char t)
          = punct_to_space (lower t)"
    by (simp add: punct_to_space_def lower_def is_punctuation_def)
  then show ?thesis by (simp add: canonical_form_def normalize_title_def trim_squeeze)
qed

lemma py_split_normalize: "py_split (normalize_title s) = py_split (punct_to_space (lower s))"
  unfolding normalize_title_def by (rule py_split_join) (auto dest: py_split_token)

lemma split_on_normalize:
  assumes "normalize_title s \<noteq> []"
  shows "split_on CHR '' '' (normalize_title s) = py_split (normalize_title s)"
proof -
  let ?ws = "py_split (punct_to_space (lower s))"
  have ne: "?ws \<noteq> []" using assms by (auto simp: normalize_title_def)
  have "\<forall>w \<in> set ?ws. CHR '' '' \<notin> set w"
    using py_split_token is_space_char_blank by blast
  with ne have "split_on CHR '' '' (join_space ?ws) = ?ws" by (rule split_on_join)
  then show ?thesis by (simp add: py_split_normalize) (simp add: normalize_title_def)
qed

lemma stop_words_common: "stop_words = common_words"
  by (simp add: stop_words_def common_words_def)

lemma content_words_eq:
  "normalize_title t \<noteq> [] \<Longrightarrow> content_words t = set (py_split (normalize_title t)) - common_words"
  by (simp add: content_words_def canonical_form_normalize split_on_normalize stop_words_common)

lemma is_substring_sublist: "is_substring xs ys \<longleftrightarrow> sublist xs ys"
  by (simp add: is_substring_iff sublist_def)

subsection \<open>The matcher meets its description\<close>

text \<open>
  Claim C1. For all titles \<open>a\<close> and \<open>b\<close>, \<open>titles_match a b\<close> holds exactly when the
  canonical forms (lower-cased, punctuation turned into whitespace, whitespace collapsed)
  are equal, or one canonical form occurs in the other as a contiguous block, or the token
  sets of the canonical forms split at spaces, with the stop words the, a, an, of, in, on,
  at, to, for, and, or, with removed, are both non-empty and the size of their
  intersection divided by the smaller size exceeds \<open>0.7\<close>; so with an empty set and no
  earlier rule the result is false. The canonical form of a title with a hyphen, a colon, a
  tab, a no-break space, capitals and an accented capital is as Python gives it; titles
  that differ in punctuation only match; an accented letter is not punctuation; and for
  \<open>A Fast Algorithm\<close> and \<open>A Quick Algorithm\<close> the ratio is \<open>1/2\<close> and the result is
  false.
\<close>

theorem titles_match_spec:
  "(titles_match a b \<longleftrightarrow>
      canonical_form a = canonical_form b
      \<or> sublist (canonical_form a) (canonical_form b) \<or> sublist (canonical_form b) (canonical_form a)
      \<or> (content_words a \<noteq> {} \<and> content_words b \<noteq> {}
          \<and> overlap_ratio (content_words a) (content_words b) > 7 / 10))
   \<and> canonical_form ('' Graph-Nets_2:'' @ [CHR 0x09] @ ''A'' @ [CHR 0xA0] @ '' SURV'' @ [CHR 0xC9] @ ''Y! '')
       = ''graph nets_2 a surv'' @ [CHR 0xE9] @ ''y''
   \<and> titles_match ''Graph-Nets Survey'' ''Graph Nets, Survey''
   \<and> \<not> titles_match (''na'' @ [CHR 0xEF] @ ''ve bayes'') ''na ve bayes''
   \<and> overlap_ratio (content_words ''A Fast Algorithm'') (content_words ''A Quick Algorithm'') = 1 / 2
   \<and> \<not> titles_match ''A Fast Algorithm'' ''A Quick Algorithm''"
proof (intro conjI)
  show "titles_match a b \<longleftrightarrow>
      canonical_form a = canonical_form b
      \<or> sublist (canonical_form a) (canonical_form b) \<or> sublist (canonical_form b) (canonical_form a)
      \<or> (content_words a \<noteq> {} \<and> content_words b \<noteq> {}
          \<and> overlap_ratio (content_words a) (content_words b) > 7 / 10)"
  proof (cases "normalize_title a = [] \<or> normalize_title b = []")
    case True
    then have "is_substring (normalize_title a) (normalize_title b)
               \<or> is_substring (normalize_title b) (normalize_title a)"
      using is_substring_Nil by auto
    then show ?thesis
      unfolding canonical_form_normalize is_substring_sublist [symmetric]
      by (auto simp: titles_match_def Let_def)
  next
    case False
    then have A: "content_words a = set (py_split (normalize_title a)) - common_words"
      and B: "content_words b = set (py_split (normalize_title b)) - common_words"
      by (simp_all add: content_words_eq)
    have fin: "finite (content_words a)" "finite (content_words b)"
      unfolding A B by simp_all
    then have "card (content_words a) > 0 \<longleftrightarrow> content_words a \<noteq> {}"
      and "card (content_words b) > 0 \<longleftrightarrow> content_words b \<noteq> {}"
      by (simp_all add: card_gt_0_iff)
    then show ?thesis
      unfolding canonical_form_normalize is_substring_sublist [symmetric]
        titles_match_def Let_def overlap_ratio_def A [symmetric] B [symmetric]
      by auto
  qed
next
  show "canonical_form ('' Graph-Nets_2:'' @ [CHR 0x09] @ ''A'' @ [CHR 0xA0] @ '' SURV'' @ [CHR 0xC9] @ ''Y! '')
       = ''graph nets_2 a surv'' @ [CHR 0xE9] @ ''y''"
    by code_simp
next
  show "titles_match ''Graph-Nets Survey'' ''Graph Nets, Survey''" by code_simp
next
  show "\<not> titles_match (''na'' @ [CHR 0xEF] @ ''ve bayes'') ''na ve bayes''" by code_simp
next
  show "overlap_ratio (content_words ''A Fast Algorithm'') (content_words ''A Quick Algorithm'') = 1 / 2"
    by code_simp
next
  show "\<not> titles_match ''A Fast Algorithm'' ''A Quick Algorithm''"
    by code_simp
qed

theorem titles_match_spec_witness:
  "titles_match ''Deep Learning for Knowledge Graphs''
                ''Deep Learning for Knowledge Graphs: A Survey''
   \<and> sublist (canonical_form ''Deep Learning for Knowledge Graphs'')
              (canonical_form ''Deep Learning for Knowledge Graphs: A Survey'')"
proof -
  have "is_substring (canonical_form ''Deep Learning for Knowledge Graphs'')
                     (canonical_form ''Deep Learning for Knowledge Graphs: A Survey'')"
    by code_simp
  then have "sublist (canonical_form ''Deep Learning for Knowledge Graphs'')
                     (canonical_form ''Deep Learning for Knowledge Graphs: A Survey'')"
    by (simp add: is_substring_sublist)
  with titles_match_spec [of "''Deep Learning for Knowledge Graphs''"
                             "''Deep Learning for Knowledge Graphs: A Survey''"]
  show ?thesis by blast
qed

subsection \<open>Symmetry\<close>

lemma overlap_ratio_commute: "overlap_ratio A B = overlap_ratio B A"
  by (simp add: overlap_ratio_def Int_commute min.commute)

lemma titles_match_unfold:
  "titles_match a b \<longleftrightarrow>
     normalize_title a = normalize_title b
     \<or> is_substring (normalize_title a) (normalize_title b) \<or> is_substring (normalize_title b) (normalize_title a)
     \<or> (0 < card (set (py_split (normalize_title a)) - common_words)
         \<and> 0 < card (set (py_split (normalize_title b)) - common_words)
         \<and> 7 / 10 < overlap_ratio (set (py_split (normalize_title a)) - common_words)
                                   (set (py_split (normalize_title b)) - common_words))"
  unfolding titles_match_def Let_def overlap_ratio_def
  by (simp only: split: if_split) blast

text \<open>
  Claim C9. \<open>titles_match\<close> is symmetric: \<open>titles_match a b\<close> equals \<open>titles_match b a\<close>
  for all titles \<open>a\<close> and \<open>b\<close>.
\<close>

theorem titles_match_symmetric: "titles_match a b = titles_match b a"
proof -
  let ?A = "set (py_split (normalize_title a)) - common_words"
  let ?B = "set (py_split (normalize_title b)) - common_words"
  have "overlap_ratio ?A ?B = overlap_ratio ?B ?A" by (rule overlap_ratio_commute)
  then show ?thesis
    unfolding titles_match_unfold [of a b] titles_match_unfold [of b a] by metis
qed

theorem titles_match_symmetric_witness:
  "titles_match ''Graph Neural Networks'' ''Neural Graph Networks: A Survey''
   \<and> titles_match ''Neural Graph Networks: A Survey'' ''Graph Neural Networks''"
proof -
  have "titles_match ''Graph Neural Networks'' ''Neural Graph Networks: A Survey''"
    by code_simp
  with titles_match_symmetric [of "''Graph Neural Networks''" "''Neural Graph Networks: A Survey''"]
  show ?thesis by simp
qed

section \<open>The open-access resolver\<close>

lemma pdf_link_nonempty: "pdf_link ls = Inr (Some u) \<Longrightarrow> u \<noteq> []"
  by (induction ls) (auto split: if_splits option.splits)

lemma pdf_link_found:
  assumes "\<forall>k \<in> set pre. l_title k \<noteq> Some ''pdf''" "l_title l = Some ''pdf''" "l_href l = Some h"
  shows "pdf_link (pre @ l # post) = Inr (Some (pdf_url_of h))"
  using assms by (induction pre) (auto simp: pdf_url_of_def)

lemma pdf_link_absent:
  "\<forall>k \<in> set ls. l_title k \<noteq> Some ''pdf'' \<Longrightarrow> pdf_link ls = Inr None"
  by (induction ls) auto

lemma scan_entries_append:
  "scan_entries t before = Inr None \<Longrightarrow> scan_entries t (before @ es) = scan_entries t es"
  by (induction before) (auto split: option.splits if_splits sum.splits)

text \<open>
  Claim C5, as amended. On a result whose title matches and that carries a PDF-typed link
  with a target, reached without an earlier return or exception, the resolver returns at
  once, sending no further query: the target of the first such link when it contains
  \<open>/pdf/\<close>, otherwise the target with \<open>/abs/\<close> rewritten to \<open>/pdf/\<close> and \<open>.pdf\<close>
  appended. A result with no PDF-typed link yields no URL, whether its title matches or
  not, and the scan goes on with the next result.
\<close>

theorem resolver_returns_pdf_link:
  "(scan_entries t before = Inr None
      \<and> e_title entry = Some raw \<and> titles_match t (py_strip raw)
      \<and> e_links entry = pre @ l # post
      \<and> (\<forall>k \<in> set pre. l_title k \<noteq> Some ''pdf'') \<and> l_title l = Some ''pdf'' \<and> l_href l = Some h
      \<and> arxiv_api w (length (net_log s)) q = Inr (before @ entry # rest)
    \<longrightarrow> run_queries w t (q # qs) s = (Inr (Some (pdf_url_of h)), send (ArxivGet q) s))
   \<and> (e_title entry = Some raw \<and> (\<forall>k \<in> set (e_links entry). l_title k \<noteq> Some ''pdf'')
    \<longrightarrow> scan_entries t (entry # rest) = scan_entries t rest)"
proof (intro conjI impI)
  assume a: "scan_entries t before = Inr None
      \<and> e_title entry = Some raw \<and> titles_match t (py_strip raw)
      \<and> e_links entry = pre @ l # post
      \<and> (\<forall>k \<in> set pre. l_title k \<noteq> Some ''pdf'') \<and> l_title l = Some ''pdf'' \<and> l_href l = Some h
      \<and> arxiv_api w (length (net_log s)) q = Inr (before @ entry # rest)"
  then have "pdf_link (e_links entry) = Inr (Some (pdf_url_of h))"
    by (simp add: pdf_link_found)
  with a have "scan_entries t (entry # rest) = Inr (Some (pdf_url_of h))" by simp
  with a have "scan_entries t (before @ entry # rest) = Inr (Some (pdf_url_of h))"
    by (simp add: scan_entries_append)
  with a show "run_queries w t (q # qs) s = (Inr (Some (pdf_url_of h)), send (ArxivGet q) s)"
    by (simp add: Let_def)
next
  assume b: "e_title entry = Some raw \<and> (\<forall>k \<in> set (e_links entry). l_title k \<noteq> Some ''pdf'')"
  then have "pdf_link (e_links entry) = Inr None" by (simp add: pdf_link_absent)
  with b show "scan_entries t (entry # rest) = scan_entries t rest" by simp
qed

text \<open>
  Claim C5 as first stated fails: a matching result that has only a link to its abstract
  page gives no URL, and the resolver goes past it to the next matching result.
\<close>

theorem resolver_counterexample:
  "titles_match ''Graph Nets'' (py_strip ''Graph Nets'')
   \<and> fst (search_arxiv_for_paper abs_only_world ''Graph Nets'' [] start) = None
   \<and> fst (search_arxiv_for_paper two_entries_world ''Graph Nets'' [] start)
       = Some ''http://arxiv.org/pdf/2401.00002v1.pdf''"
  by code_simp

theorem resolver_returns_pdf_link_witness:
  "run_queries two_entries_world ''Graph Nets'' [''ti:Graph Nets''] start
     = (Inr (Some ''http://arxiv.org/pdf/2401.00002v1.pdf''), send (ArxivGet ''ti:Graph Nets'') start)
   \<and> scan_entries ''Graph Nets'' [abs_only_entry, pdf_entry] = scan_entries ''Graph Nets'' [pdf_entry]"
proof -
  have m: "titles_match ''Graph Nets'' (py_strip '' Graph Nets '')" by code_simp
  have u: "pdf_url_of ''http://arxiv.org/abs/2401.00002v1'' = ''http://arxiv.org/pdf/2401.00002v1.pdf''"
    by code_simp
  have n: "scan_entries ''Graph Nets'' [abs_only_entry] = Inr None" by code_simp
  note first = resolver_returns_pdf_link [where t = "''Graph Nets''" and before = "[abs_only_entry]"
      and entry = pdf_entry and raw = "'' Graph Nets ''"
      and pre = "[\<lparr>l_title = None, l_href = Some ''http://arxiv.org/abs/2401.00002v1''\<rparr>]"
      and l = "\<lparr>l_title = Some ''pdf'', l_href = Some ''http://arxiv.org/abs/2401.00002v1''\<rparr>"
      and post = "[]" and h = "''http://arxiv.org/abs/2401.00002v1''"
      and w = two_entries_world and s = start and q = "''ti:Graph Nets''" and rest = "[]"
      and qs = "[]"]
  note second = resolver_returns_pdf_link [where entry = abs_only_entry and raw = "''Graph Nets''"
      and rest = "[pdf_entry]" and t = "''Graph Nets''"]
  have "run_queries two_entries_world ''Graph Nets'' [''ti:Graph Nets''] start
     = (Inr (Some ''http://arxiv.org/pdf/2401.00002v1.pdf''), send (ArxivGet ''ti:Graph Nets'') start)"
    using first m u n by (simp add: pdf_entry_def two_entries_world_def)
  moreover have "scan_entries ''Graph Nets'' [abs_only_entry, pdf_entry]
                   = scan_entries ''Graph Nets'' [pdf_entry]"
    using second by (simp add: abs_only_entry_def)
  ultimately show ?thesis by simp
qed

section \<open>The source selection policy\<close>

lemma scan_entries_nonempty: "scan_entries t es = Inr (Some u) \<Longrightarrow> u \<noteq> []"
  by (induction es) (auto split: if_splits option.splits sum.splits dest: pdf_link_nonempty)

lemma run_queries_nonempty: "run_queries w t qs s = (Inr (Some u), s') \<Longrightarrow> u \<noteq> []"
  by (induction qs arbitrary: s)
     (auto simp: Let_def split: if_splits option.splits sum.splits dest: scan_entries_nonempty)

lemma search_arxiv_nonempty:
  "search_arxiv_for_paper w t au s = (Some u, s') \<Longrightarrow> u \<noteq> []"
  by (auto simp: search_arxiv_for_paper_def split: sum.splits prod.splits dest: run_queries_nonempty)

text \<open>
  Claim C4. For every candidate whose embedded link is a string (empty when absent), the
  source is chosen in this order: the resolver's URL when it found one; otherwise the
  embedded link as a direct link when it ends in \<open>.pdf\<close> or contains \<open>arxiv.org/pdf\<close>;
  otherwise no source when the link matches a paywalled-venue pattern, and the link as a
  broad link when it does not; no source when there is neither a resolver URL nor a link.
\<close>

theorem source_selection_order:
  assumes "search_arxiv_for_paper w (title p) (authors p) s = (arxiv_url, s1)"
    and "ee p = JStr e"
  shows "select_source arxiv_url (ee p) =
           Inr (case arxiv_url of
                  Some u \<Rightarrow> Some (u, ''arXiv'')
                | None \<Rightarrow>
                    if e = [] then None
                    else if direct_pdf e then Some (e, ''DBLP direct link'')
                    else if paywalled e then None
                    else Some (e, ''DBLP EE link''))"
proof (cases arxiv_url)
  case None
  with assms(2) show ?thesis
    by (simp add: select_source_def direct_pdf_def paywalled_def)
next
  case (Some u)
  with assms(1) have "u \<noteq> []" by (auto dest: search_arxiv_nonempty)
  with Some show ?thesis by (simp add: select_source_def)
qed

theorem source_selection_order_witness:
  "select_source (fst (search_arxiv_for_paper quiet_world (title ojs_paper) (authors ojs_paper) start))
     (ee ojs_paper) = Inr None"
proof -
  let ?r = "search_arxiv_for_paper quiet_world (title ojs_paper) (authors ojs_paper) start"
  have none: "fst ?r = None" by code_simp
  have link: "ee ojs_paper = JStr ''https://ojs.aaai.org/index.php/AAAI/article/view/1''"
    by (simp add: ojs_paper_def)
  have d: "\<not> direct_pdf ''https://ojs.aaai.org/index.php/AAAI/article/view/1''" by code_simp
  have p: "paywalled ''https://ojs.aaai.org/index.php/AAAI/article/view/1''" by code_simp
  have "?r = (fst ?r, snd ?r)" by simp
  from source_selection_order [OF this link] none d p show ?thesis by simp
qed

section \<open>The bibliographic search\<close>


lemma process_hits_acc:
  "process_hits k v hs acc = (acc @ fst (process_hits k v hs []), snd (process_hits k v hs []))"
proof (induction hs arbitrary: acc)
  case Nil
  then show ?case by simp
next
  case (Cons h hs)
  show ?case
  proof (cases "process_hit k v h")
    case (Inl e)
    then show ?thesis by simp
  next
    case (Inr r)
    show ?thesis
    proof (cases r)
      case None
      with Inr Cons.IH [of acc] show ?thesis by simp
    next
      case (Some p)
      with Inr Cons.IH [of "acc @ [p]"] Cons.IH [of "[p]"] show ?thesis by simp
    qed
  qed
qed

lemma process_data_acc:
  "fst (process_data k v data acc) = acc @ fst (process_data k v data [])"
  using process_hits_acc [of k v _ acc]
  by (simp add: process_data_def split: sum.splits)

lemma search_year_step_records:
  "search_year_step w k v y (papers, s) =
     (papers @ year_records k v (dblp_api w (length (net_log s)) (dblp_query k v y)),
      send (DblpGet (dblp_query k v y)) s)"
  using process_data_acc [of k v _ papers]
  by (simp add: search_year_step_def year_records_def Let_def split: sum.splits)

lemma search_dblp_records:
  "search_dblp w k v y s =
     (year_records k v (dblp_api w (length (net_log s)) (dblp_query k v y))
        @ year_records k v (dblp_api w (Suc (length (net_log s))) (dblp_query k v (y - 1))),
      send (DblpGet (dblp_query k v (y - 1))) (send (DblpGet (dblp_query k v y)) s))"
  by (simp add: search_dblp_def search_year_step_records) (simp add: send_def)



lemma response_hits_reply: "response_hits (reply_json hs) = Inr (map hit_json hs)"
  by (simp add: response_hits_def reply_json_def then_do_def)






lemma process_hits_fault:
  assumes "snd (process_hits k v good acc) = None" "process_hit k v bad = Inl e"
  shows "process_hits k v (good @ bad # rest) acc = (fst (process_hits k v good acc), Some e)"
  using assms
proof (induction good arbitrary: acc)
  case Nil
  then show ?case by simp
next
  case (Cons h hs)
  then show ?case by (cases "process_hit k v h") (auto split: option.splits)
qed

lemma year_records_fault:
  assumes "response_hits data = Inr (good @ bad # rest)"
    and "snd (process_hits k v good []) = None" "process_hit k v bad = Inl e"
  shows "year_records k v (Inr data) = fst (process_hits k v good [])"
  using assms by (simp add: year_records_def process_data_def process_hits_fault)

lemma year_records_no_hits:
  "reply = Inl e \<or> (\<exists>data. reply = Inr data \<and> response_hits data = Inl e) \<Longrightarrow>
   year_records k v reply = []"
  by (auto simp: year_records_def process_data_def)



text \<open>
  Claim C6, as amended. The search raises no fault and sends both requests whatever the
  replies are, and its result is the records of the first reply followed by those of the
  second. A year whose request, status check, decoding or envelope fails contributes no
  record, so the search returns exactly the records of the other year. A year whose
  processing fails at a hit contributes the records accepted before that hit.
\<close>

theorem search_dblp_failure_isolated:
  assumes "rY = dblp_api w (length (net_log s)) (dblp_query k v y)"
    and "rP = dblp_api w (Suc (length (net_log s))) (dblp_query k v (y - 1))"
  shows "fst (search_dblp w k v y s) = year_records k v rY @ year_records k v rP
         \<and> net_log (snd (search_dblp w k v y s))
           = net_log s @ [DblpGet (dblp_query k v y), DblpGet (dblp_query k v (y - 1))]
         \<and> (rY = Inl e \<or> (\<exists>data. rY = Inr data \<and> response_hits data = Inl e)
            \<longrightarrow> fst (search_dblp w k v y s) = year_records k v rP)
         \<and> (rP = Inl e \<or> (\<exists>data. rP = Inr data \<and> response_hits data = Inl e)
            \<longrightarrow> fst (search_dblp w k v y s) = year_records k v rY)
         \<and> (r \<in> {rY, rP} \<and> r = Inr data \<and> response_hits data = Inr (good @ bad # rest)
              \<and> snd (process_hits k v good []) = None \<and> process_hit k v bad = Inl e
            \<longrightarrow> year_records k v r = fst (process_hits k v good []))"
proof (intro conjI impI)
  show cat: "fst (search_dblp w k v y s) = year_records k v rY @ year_records k v rP"
    by (simp add: search_dblp_records assms)
  show "net_log (snd (search_dblp w k v y s))
           = net_log s @ [DblpGet (dblp_query k v y), DblpGet (dblp_query k v (y - 1))]"
    by (simp add: search_dblp_records send_def)
  show "fst (search_dblp w k v y s) = year_records k v rP"
    if "rY = Inl e \<or> (\<exists>data. rY = Inr data \<and> response_hits data = Inl e)"
    unfolding cat using year_records_no_hits [OF that] by simp
  show "fst (search_dblp w k v y s) = year_records k v rY"
    if "rP = Inl e \<or> (\<exists>data. rP = Inr data \<and> response_hits data = Inl e)"
    unfolding cat using year_records_no_hits [OF that] by simp
  show "year_records k v r = fst (process_hits k v good [])"
    if "r \<in> {rY, rP} \<and> r = Inr data \<and> response_hits data = Inr (good @ bad # rest)
              \<and> snd (process_hits k v good []) = None \<and> process_hit k v bad = Inl e"
    using that by (simp add: year_records_fault)
qed

theorem search_dblp_failure_isolated_witness:
  "fst (search_dblp first_year_down_world ''knowledge graph'' ''AAAI'' 2025 start)
     = year_records ''knowledge graph'' ''AAAI'' (Inr (reply_json [kg_earlier]))
   \<and> year_records ''knowledge graph'' ''AAAI'' (Inr (reply_json [kg_earlier])) = [from_dblp kg_earlier]
   \<and> year_records ''knowledge graph'' ''AAAI'' (Inr (reply_json [kg_aaai, kg_two_venues, kg_dropped]))
     = [from_dblp kg_aaai]"
proof -
  have q1: "dblp_query ''knowledge graph'' ''AAAI'' 2025 = ''knowledge graph venue:AAAI year:2025''"
    by code_simp
  have q2: "dblp_query ''knowledge graph'' ''AAAI'' (2025 - 1) = ''knowledge graph venue:AAAI year:2024''"
    by code_simp
  have r1: "dblp_api first_year_down_world (length (net_log start))
              (dblp_query ''knowledge graph'' ''AAAI'' 2025) = Inl (External ''timed out'')"
    unfolding q1 by (simp add: first_year_down_world_def)
  have r2: "dblp_api first_year_down_world (Suc (length (net_log start)))
              (dblp_query ''knowledge graph'' ''AAAI'' (2025 - 1)) = Inr (reply_json [kg_earlier])"
    unfolding q2 by (simp add: first_year_down_world_def)
  have a: "fst (search_dblp first_year_down_world ''knowledge graph'' ''AAAI'' 2025 start)
            = year_records ''knowledge graph'' ''AAAI'' (Inr (reply_json [kg_earlier]))"
    using search_dblp_failure_isolated [OF r1 [symmetric] r2 [symmetric], of "External ''timed out''"]
    by blast
  have b: "year_records ''knowledge graph'' ''AAAI'' (Inr (reply_json [kg_earlier])) = [from_dblp kg_earlier]"
    by code_simp
  have h: "response_hits (reply_json [kg_aaai, kg_two_venues, kg_dropped])
             = Inr ([hit_json kg_aaai] @ hit_json kg_two_venues # [hit_json kg_dropped])"
    by (simp add: response_hits_reply)
  have g: "process_hits ''knowledge graph'' ''AAAI'' [hit_json kg_aaai] [] = ([from_dblp kg_aaai], None)"
    by code_simp
  have f: "process_hit ''knowledge graph'' ''AAAI'' (hit_json kg_two_venues) = Inl AttributeError"
    by code_simp
  have c: "year_records ''knowledge graph'' ''AAAI'' (Inr (reply_json [kg_aaai, kg_two_venues, kg_dropped]))
             = [from_dblp kg_aaai]"
    using search_dblp_failure_isolated [where r = "Inr (reply_json [kg_aaai, kg_two_venues, kg_dropped])"
        and rY = "Inr (reply_json [kg_aaai, kg_two_venues, kg_dropped])"
        and w = faulty_hit_world and s = start and k = "''knowledge graph''" and v = "''AAAI''"
        and y = 2025 and rP = "Inr (reply_json [kg_earlier])"
        and data = "reply_json [kg_aaai, kg_two_venues, kg_dropped]"
        and good = "[hit_json kg_aaai]" and bad = "hit_json kg_two_venues"
        and rest = "[hit_json kg_dropped]" and e = AttributeError]
      h g f q1 q2
    by (simp add: faulty_hit_world_def start_def init_crawler_def)
  from a b c show ?thesis by simp
qed

text \<open>
  Claim C6 as first stated fails: the reply for 2025 holds a hit with a list of venues
  between two good hits, so its processing raises, yet the record accepted before the
  fault stays in the result next to the records of 2024.
\<close>

theorem search_dblp_failure_counterexample:
  "dblp_api faulty_hit_world 0 (dblp_query ''knowledge graph'' ''AAAI'' 2025)
     = Inr (reply_json [kg_aaai, kg_two_venues, kg_dropped])
   \<and> snd (process_data ''knowledge graph'' ''AAAI'' (reply_json [kg_aaai, kg_two_venues, kg_dropped]) [])
     = Some AttributeError
   \<and> dblp_api faulty_hit_world 1 (dblp_query ''knowledge graph'' ''AAAI'' (2025 - 1))
     = Inr (reply_json [kg_earlier])
   \<and> process_data ''knowledge graph'' ''AAAI'' (reply_json [kg_earlier]) [] = ([from_dblp kg_earlier], None)
   \<and> fst (search_dblp faulty_hit_world ''knowledge graph'' ''AAAI'' 2025 start)
     = [from_dblp kg_aaai, from_dblp kg_earlier]
   \<and> fst (search_dblp faulty_hit_world ''knowledge graph'' ''AAAI'' 2025 start) \<noteq> [from_dblp kg_earlier]"
  by code_simp

section \<open>The download step\<close>

subsection \<open>What the resolver and the fetch change\<close>

lemma run_queries_frame:
  "run_queries w t qs s = (r, s') \<Longrightarrow>
   files s' = files s \<and> failed_downloads s' = failed_downloads s \<and> output_dir s' = output_dir s
   \<and> filter is_fetch (net_log s') = filter is_fetch (net_log s)"
proof (induction qs arbitrary: s)
  case Nil
  then show ?case by simp
next
  case (Cons q qs)
  let ?s1 = "send (ArxivGet q) s"
  have frame: "files ?s1 = files s \<and> failed_downloads ?s1 = failed_downloads s
      \<and> output_dir ?s1 = output_dir s \<and> filter is_fetch (net_log ?s1) = filter is_fetch (net_log s)"
    by (simp add: send_def)
  show ?case
  proof (cases "run_queries w t qs ?s1 = (r, s')")
    case True
    from Cons.IH [OF True] frame show ?thesis by simp
  next
    case False
    with Cons.prems have "s' = ?s1"
      by (auto simp: Let_def split: sum.splits option.splits)
    with frame show ?thesis by simp
  qed
qed

lemma search_arxiv_frame:
  assumes "search_arxiv_for_paper w t au s = (r, s')"
  shows "files s' = files s \<and> failed_downloads s' = failed_downloads s \<and> output_dir s' = output_dir s
         \<and> filter is_fetch (net_log s') = filter is_fetch (net_log s)"
proof (cases "arxiv_queries t au")
  case (Inl e)
  with assms show ?thesis by (simp add: search_arxiv_for_paper_def)
next
  case (Inr qs)
  obtain r0 s0 where rq: "run_queries w t qs s = (r0, s0)" by (cases "run_queries w t qs s")
  with assms Inr have "s' = s0"
    by (auto simp: search_arxiv_for_paper_def split: sum.splits)
  with run_queries_frame [OF rq] show ?thesis by simp
qed


lemma send_simps:
  "output_dir (send r s) = output_dir s" "files (send r s) = files s"
  "failed_downloads (send r s) = failed_downloads s" "net_log (send r s) = net_log s @ [r]"
  by (simp_all add: send_def)

lemma write_file_simps:
  "output_dir (write_file path c s) = output_dir s" "files (write_file path c s) = (files s)(path \<mapsto> c)"
  "failed_downloads (write_file path c s) = failed_downloads s" "net_log (write_file path c s) = net_log s"
  by (simp_all add: write_file_def)

lemma record_failure_simps:
  "output_dir (record_failure f s) = output_dir s" "files (record_failure f s) = files s"
  "failed_downloads (record_failure f s) = failed_downloads s @ [f]"
  "net_log (record_failure f s) = net_log s"
  by (simp_all add: record_failure_def)

lemma metadata_path_ne_pdf_path: "metadata_path s i \<noteq> pdf_path s p j"
proof
  assume eq: "metadata_path s i = pdf_path s p j"
  have "last (metadata_path s i) = CHR ''n''"
    by (simp add: metadata_path_def path_join_def)
  moreover have "last (pdf_path s p j) = CHR ''f''"
    by (simp add: pdf_path_def path_join_def)
  ultimately show False using eq by simp
qed

lemma try_download_cases:
  assumes "try_download w p i u src s = (r, s')"
  shows "output_dir s' = output_dir s
         \<and> filter is_fetch (net_log s') = filter is_fetch (net_log s) @ [PdfGet u]
         \<and> (r = Inr False \<longrightarrow> (\<exists>f. failed_downloads s' = failed_downloads s @ [f]
                                  \<and> f_index f = i \<and> f_title f = title p))
         \<and> (r \<noteq> Inr False \<longrightarrow> failed_downloads s' = failed_downloads s)
         \<and> (r = Inr True \<longrightarrow> files s' (pdf_path s p i) \<noteq> None)"
proof -
  let ?s1 = "send (PdfGet u) s"
  let ?s2 = "\<lambda>resp. write_file (pdf_path s p i) (Written (chunks resp)) ?s1"
  have base: "\<And>x. x = ?s1 \<Longrightarrow> output_dir x = output_dir s
         \<and> filter is_fetch (net_log x) = filter is_fetch (net_log s) @ [PdfGet u]
         \<and> failed_downloads x = failed_downloads s"
    by (simp add: send_simps)
  have wr: "\<And>x resp. x = ?s2 resp \<Longrightarrow> output_dir x = output_dir s
         \<and> filter is_fetch (net_log x) = filter is_fetch (net_log s) @ [PdfGet u]
         \<and> failed_downloads x = failed_downloads s \<and> files x (pdf_path s p i) \<noteq> None"
    by (simp add: send_simps write_file_simps)
  show ?thesis
  proof (cases "http_get w (length (net_log s)) u")
    case (Inl e)
    with assms have "r = Inl e" "s' = ?s1" by (simp_all add: try_download_def Let_def)
    with base [of s'] show ?thesis by simp
  next
    case (Inr resp)
    show ?thesis
    proof (cases "status_code resp = 403")
      case True
      with assms Inr have "r = Inr False"
        "s' = record_failure \<lparr>f_index = i, f_title = title p,
                f_reason = ''403 Forbidden from '' @ src, f_url = Some u\<rparr> ?s1"
        by (simp_all add: try_download_def Let_def)
      then show ?thesis by (simp add: send_simps record_failure_simps)
    next
      case False
      note not403 = this
      show ?thesis
      proof (cases "raise_for_status resp")
        case (Some e)
        with assms Inr not403 have "r = Inl e" "s' = ?s1"
          by (simp_all add: try_download_def Let_def)
        with base [of s'] show ?thesis by simp
      next
        case None
        note status_ok = this
        show ?thesis
        proof (cases "open_error w (pdf_path s p i)")
          case (Some e)
          with assms Inr not403 status_ok have "r = Inl e" "s' = ?s1"
            by (simp_all add: try_download_def Let_def)
          with base [of s'] show ?thesis by simp
        next
          case None
          note opened = this
          show ?thesis
          proof (cases "stream_error resp")
            case (Some e)
            with assms Inr not403 status_ok opened have "r = Inl e" "s' = ?s2 resp"
              by (simp_all add: try_download_def Let_def)
            with wr [of s' resp] show ?thesis by simp
          next
            case None
            note streamed = this
            show ?thesis
            proof (cases "open_error w (metadata_path s i)")
              case (Some e)
              with assms Inr not403 status_ok opened streamed have "r = Inl e" "s' = ?s2 resp"
                by (simp_all add: try_download_def Let_def)
              with wr [of s' resp] show ?thesis by simp
            next
              case None
              with assms Inr not403 status_ok opened streamed
              have "r = Inr True"
                "\<exists>md. s' = write_file (metadata_path s i) (MetadataJson md) (?s2 resp)"
                by (auto simp add: try_download_def Let_def)
              then obtain md where
                "r = Inr True" "s' = write_file (metadata_path s i) (MetadataJson md) (?s2 resp)"
                by blast
              then show ?thesis
                by (simp add: send_simps write_file_simps metadata_path_ne_pdf_path)
            qed
          qed
        qed
      qed
    qed
  qed
qed

lemma download_paper_skip:
  "files s (pdf_path s p i) \<noteq> None \<Longrightarrow> download_paper w p i s = (Inr True, s)"
  by (simp add: download_paper_def)

lemma download_paper_raise:
  assumes "files s (pdf_path s p i) = None"
    and "search_arxiv_for_paper w (title p) (authors p) s = (a, s1)"
    and "select_source a (ee p) = Inl e"
  shows "download_paper w p i s = (Inl e, s1)"
  using assms by (simp add: download_paper_def)

lemma download_paper_no_source:
  assumes "files s (pdf_path s p i) = None"
    and "search_arxiv_for_paper w (title p) (authors p) s = (a, s1)"
    and "select_source a (ee p) = Inr None"
  shows "download_paper w p i s =
           (Inr False, record_failure \<lparr>f_index = i, f_title = title p,
                          f_reason = ''No accessible PDF URL found'', f_url = None\<rparr> s1)"
  using assms by (simp add: download_paper_def)

lemma download_paper_fetched:
  assumes "files s (pdf_path s p i) = None"
    and "search_arxiv_for_paper w (title p) (authors p) s = (a, s1)"
    and "select_source a (ee p) = Inr (Some (u, src))"
    and "try_download w p i u src s1 = (Inr ok, s2)"
  shows "download_paper w p i s = (Inr ok, s2)"
  using assms by (simp add: download_paper_def)

lemma download_paper_caught:
  assumes "files s (pdf_path s p i) = None"
    and "search_arxiv_for_paper w (title p) (authors p) s = (a, s1)"
    and "select_source a (ee p) = Inr (Some (u, src))"
    and "try_download w p i u src s1 = (Inl e, s2)"
  shows "download_paper w p i s =
           (Inr False, record_failure \<lparr>f_index = i, f_title = title p,
                          f_reason = exn_text e, f_url = Some u\<rparr> s2)"
  using assms by (simp add: download_paper_def)

lemma download_paper_cases:
  assumes "download_paper w p i s = (r, s')"
  shows "output_dir s' = output_dir s
         \<and> (r = Inr False \<longrightarrow> (\<exists>f. failed_downloads s' = failed_downloads s @ [f]
                                  \<and> f_index f = i \<and> f_title f = title p))
         \<and> (r \<noteq> Inr False \<longrightarrow> failed_downloads s' = failed_downloads s)
         \<and> (r = Inr True \<longrightarrow> files s' (pdf_path s p i) \<noteq> None)
         \<and> (r = Inr True \<and> files s (pdf_path s p i) = None \<longrightarrow>
              (\<exists>u. filter is_fetch (net_log s') = filter is_fetch (net_log s) @ [PdfGet u]))"
proof (cases "files s (pdf_path s p i) = None")
  case False
  then have "download_paper w p i s = (Inr True, s)" by (simp add: download_paper_skip)
  with assms have "r = Inr True" "s' = s" by simp_all
  with False show ?thesis by simp
next
  case True
  obtain a s1 where ar: "search_arxiv_for_paper w (title p) (authors p) s = (a, s1)"
    by (cases "search_arxiv_for_paper w (title p) (authors p) s")
  note fr = search_arxiv_frame [OF ar]
  show ?thesis
  proof (cases "select_source a (ee p)")
    case (Inl e)
    from download_paper_raise [OF True ar Inl] assms have "r = Inl e" "s' = s1" by simp_all
    with fr show ?thesis by simp
  next
    case (Inr choice)
    note sel = this
    show ?thesis
    proof (cases choice)
      case None
      with sel have "select_source a (ee p) = Inr None" by simp
      from download_paper_no_source [OF True ar this] assms
      have "r = Inr False"
        "s' = record_failure \<lparr>f_index = i, f_title = title p,
                 f_reason = ''No accessible PDF URL found'', f_url = None\<rparr> s1"
        by simp_all
      with fr show ?thesis by (simp add: record_failure_simps)
    next
      case (Some us)
      obtain u src where us: "us = (u, src)" by (cases us)
      with sel Some have sel': "select_source a (ee p) = Inr (Some (u, src))" by simp
      obtain r2 s2 where td: "try_download w p i u src s1 = (r2, s2)"
        by (cases "try_download w p i u src s1")
      note tc = try_download_cases [OF td]
      have pp: "pdf_path s1 p i = pdf_path s p i" using fr by (simp add: pdf_path_def)
      show ?thesis
      proof (cases r2)
        case (Inl e)
        with td have "try_download w p i u src s1 = (Inl e, s2)" by simp
        from download_paper_caught [OF True ar sel' this] assms
        have "r = Inr False" "s' = record_failure \<lparr>f_index = i, f_title = title p,
                  f_reason = exn_text e, f_url = Some u\<rparr> s2"
          by simp_all
        moreover from tc Inl have "failed_downloads s2 = failed_downloads s1" "output_dir s2 = output_dir s1"
          by simp_all
        ultimately show ?thesis using fr by (simp add: record_failure_simps)
      next
        case (Inr ok)
        with td have "try_download w p i u src s1 = (Inr ok, s2)" by simp
        from download_paper_fetched [OF True ar sel' this] assms Inr
        have rs: "r = r2" "s' = s2" by simp_all
        from tc fr pp have
          "output_dir s2 = output_dir s"
          "filter is_fetch (net_log s2) = filter is_fetch (net_log s) @ [PdfGet u]"
          "r2 = Inr False \<longrightarrow> (\<exists>f. failed_downloads s2 = failed_downloads s @ [f]
                                  \<and> f_index f = i \<and> f_title f = title p)"
          "r2 \<noteq> Inr False \<longrightarrow> failed_downloads s2 = failed_downloads s"
          "r2 = Inr True \<longrightarrow> files s2 (pdf_path s p i) \<noteq> None"
          by simp_all
        then show ?thesis unfolding rs by blast
      qed
    qed
  qed
qed

lemma download_all_count:
  "download_all w ps i c s = (Inr n, s') \<Longrightarrow>
   output_dir s' = output_dir s
   \<and> n + int (length (failed_downloads s')) = c + int (length ps) + int (length (failed_downloads s))"
proof (induction ps arbitrary: i c s)
  case Nil
  then show ?case by simp
next
  case (Cons p ps)
  obtain r s1 where dp: "download_paper w p i s = (r, s1)" by (cases "download_paper w p i s")
  note dc = download_paper_cases [OF dp]
  show ?case
  proof (cases r)
    case (Inl e)
    with Cons.prems dp show ?thesis by simp
  next
    case (Inr ok)
    with Cons.prems dp
    have rest: "download_all w ps (i + 1) (if ok then c + 1 else c) s1 = (Inr n, s')" by simp
    note ih = Cons.IH [OF rest]
    show ?thesis
    proof (cases ok)
      case True
      with dc Inr have "failed_downloads s1 = failed_downloads s" "output_dir s1 = output_dir s"
        by simp_all
      with ih True show ?thesis by simp
    next
      case False
      with dc Inr obtain f where "failed_downloads s1 = failed_downloads s @ [f]" by auto
      moreover from dc have "output_dir s1 = output_dir s" by simp
      ultimately show ?thesis using ih False by simp
    qed
  qed
qed

lemma path_join_inject:
  assumes "\<not> prefix ''/'' a" "\<not> prefix ''/'' b" "path_join d a = path_join d b"
  shows "a = b"
  using assms by (simp add: path_join_def split: if_splits)

lemma report_paths_distinct:
  "path_join d ''all_papers.json'' \<noteq> path_join d ''failed_downloads.json''"
  "path_join d ''all_papers.json'' \<noteq> path_join d ''download_report.txt''"
  "path_join d ''failed_downloads.json'' \<noteq> path_join d ''download_report.txt''"
  by (auto dest!: path_join_inject [rotated 2])

lemma save_results_written:
  assumes "save_results w papers s = (None, s')"
  shows "files s' (path_join (output_dir s) ''all_papers.json'') = Some (PapersJson papers)
         \<and> failed_downloads s' = failed_downloads s \<and> net_log s' = net_log s
         \<and> (failed_downloads s \<noteq> [] \<longrightarrow>
              files s' (path_join (output_dir s) ''failed_downloads.json'')
                = Some (FailuresJson (failed_downloads s))
              \<and> files s' (path_join (output_dir s) ''download_report.txt'')
                = Some (Written (report_lines (clock w (length (net_log s))) papers
                                              (failed_downloads s))))"
proof (cases "open_error w (path_join (output_dir s) ''all_papers.json'')")
  case (Some e)
  with assms show ?thesis by (simp add: save_results_def Let_def)
next
  case None
  note o1 = this
  let ?s1 = "write_file (path_join (output_dir s) ''all_papers.json'') (PapersJson papers) s"
  show ?thesis
  proof (cases "failed_downloads s = []")
    case True
    with assms o1 have "s' = ?s1" by (simp add: save_results_def Let_def write_file_simps)
    with True show ?thesis by (simp add: write_file_simps)
  next
    case False
    note nonempty = this
    show ?thesis
    proof (cases "open_error w (path_join (output_dir s) ''failed_downloads.json'')")
      case (Some e)
      with assms o1 nonempty show ?thesis by (simp add: save_results_def Let_def write_file_simps)
    next
      case None
      note o2 = this
      let ?s2 = "write_file (path_join (output_dir s) ''failed_downloads.json'')
                   (FailuresJson (failed_downloads s)) ?s1"
      show ?thesis
      proof (cases "open_error w (path_join (output_dir s) ''download_report.txt'')")
        case (Some e)
        with assms o1 o2 nonempty show ?thesis
          by (simp add: save_results_def Let_def write_file_simps)
      next
        case None
        with assms o1 o2 nonempty
        have "s' = write_file (path_join (output_dir s) ''download_report.txt'')
                     (Written (report_lines (clock w (length (net_log s))) papers
                                 (failed_downloads s))) ?s2"
          by (simp add: save_results_def Let_def write_file_simps)
        then show ?thesis by (simp add: write_file_simps report_paths_distinct)
      qed
    qed
  qed
qed

subsection \<open>The failure list and the counts\<close>

text \<open>
  Claim C10. A call of the download step appends at most one record to the failure list:
  exactly one, carrying the index and the title, when it returns failure, and none
  otherwise. So after the loop over the candidates the success count plus the length of
  the failure list is the number of candidates plus the length the list had before; from
  an empty list the two add up to the number of candidates, and the report's count of
  successes, the total minus the failures, is the success count.
\<close>

theorem failure_list_counts:
  "(download_paper w p i s = (r, s') \<longrightarrow>
      (r = Inr False \<longrightarrow> (\<exists>f. failed_downloads s' = failed_downloads s @ [f]
                               \<and> f_index f = i \<and> f_title f = title p))
      \<and> (r \<noteq> Inr False \<longrightarrow> failed_downloads s' = failed_downloads s))
   \<and> (download_all w ps 1 0 s = (Inr n, s'') \<longrightarrow>
        n + int (length (failed_downloads s'')) = int (length ps) + int (length (failed_downloads s)))
   \<and> (failed_downloads s = [] \<and> download_all w ps 1 0 s = (Inr n, s'') \<longrightarrow>
        n + int (length (failed_downloads s'')) = int (length ps)
        \<and> report_lines now ps (failed_downloads s'') ! 3
            = ''Successfully downloaded: '' @ str_int n @ nl)"
proof (intro conjI impI)
  assume dp: "download_paper w p i s = (r, s')"
  show "\<exists>f. failed_downloads s' = failed_downloads s @ [f] \<and> f_index f = i \<and> f_title f = title p"
    if "r = Inr False"
    using download_paper_cases [OF dp] that by blast
  show "failed_downloads s' = failed_downloads s" if "r \<noteq> Inr False"
    using download_paper_cases [OF dp] that by blast
next
  assume "download_all w ps 1 0 s = (Inr n, s'')"
  from download_all_count [OF this]
  show "n + int (length (failed_downloads s'')) = int (length ps) + int (length (failed_downloads s))"
    by simp
next
  assume a: "failed_downloads s = [] \<and> download_all w ps 1 0 s = (Inr n, s'')"
  then have "download_all w ps 1 0 s = (Inr n, s'')" by simp
  from download_all_count [OF this] a
  show sum: "n + int (length (failed_downloads s'')) = int (length ps)" by simp
  then have "int (length ps) - int (length (failed_downloads s'')) = n" by simp
  then show "report_lines now ps (failed_downloads s'') ! 3
               = ''Successfully downloaded: '' @ str_int n @ nl"
    by (simp add: report_lines_def)
qed

theorem failure_list_counts_witness:
  "fst (download_paper forbidden_world found_paper 1 start) = Inr False
   \<and> length (failed_downloads (snd (download_paper forbidden_world found_paper 1 start))) = 1
   \<and> fst (download_all forbidden_world [found_paper] 1 0 start) = Inr 0
   \<and> length (failed_downloads (snd (download_all forbidden_world [found_paper] 1 0 start))) = 1"
proof -
  let ?d = "download_paper forbidden_world found_paper 1 start"
  let ?a = "download_all forbidden_world [found_paper] 1 0 start"
  have r: "fst ?d = Inr False" by code_simp
  have n: "fst ?a = Inr 0" by code_simp
  have e: "failed_downloads start = []" by (simp add: start_def init_crawler_def)
  have d: "?d = (Inr False, snd ?d)" using r by (simp add: prod_eq_iff)
  have a: "?a = (Inr 0, snd ?a)" using n by (simp add: prod_eq_iff)
  note T = failure_list_counts [where w = forbidden_world and p = found_paper and i = 1
      and s = start and ps = "[found_paper]" and r = "Inr False" and s' = "snd ?d"
      and n = 0 and s'' = "snd ?a"]
  from T d e obtain f where "failed_downloads (snd ?d) = [f]" by auto
  then have l1: "length (failed_downloads (snd ?d)) = 1" by simp
  from T a e have "0 + int (length (failed_downloads (snd ?a))) = int (length [found_paper])"
    by blast
  then have l2: "length (failed_downloads (snd ?a)) = 1" by simp
  from r l1 n l2 show ?thesis by simp
qed

subsection \<open>Skipping what is already there\<close>

text \<open>
  Claim C7, as amended. If the artifact file exists at the target path when the download
  step starts, the step returns success and leaves the crawler, the files and the list of
  requests as they were: no resolver query, no fetch, no metadata written. Hence once a
  call has returned success, a second call for the same candidate and run index returns
  success without any request, whatever the network would answer; when the file was not
  there before the first call, the two calls together perform exactly one fetch.
\<close>

theorem download_skip_idempotent:
  "(files s (pdf_path s p i) \<noteq> None \<longrightarrow> download_paper w p i s = (Inr True, s))
   \<and> (download_paper w p i s = (Inr True, s') \<longrightarrow> download_paper w' p i s' = (Inr True, s'))
   \<and> (files s (pdf_path s p i) = None \<and> download_paper w p i s = (Inr True, s')
        \<and> download_paper w' p i s' = (r, s'')
      \<longrightarrow> r = Inr True
          \<and> length (filter is_fetch (net_log s'')) = Suc (length (filter is_fetch (net_log s))))"
proof (intro conjI impI)
  show "download_paper w p i s = (Inr True, s)" if "files s (pdf_path s p i) \<noteq> None"
    using that by (rule download_paper_skip)
  have again: "download_paper w' p i s' = (Inr True, s')"
    if dp: "download_paper w p i s = (Inr True, s')" for s'
  proof -
    from download_paper_cases [OF dp]
    have "output_dir s' = output_dir s" "files s' (pdf_path s p i) \<noteq> None" by simp_all
    then have "files s' (pdf_path s' p i) \<noteq> None" by (simp add: pdf_path_def)
    then show ?thesis by (rule download_paper_skip)
  qed
  show "download_paper w' p i s' = (Inr True, s')" if "download_paper w p i s = (Inr True, s')"
    using that by (rule again)
  assume a: "files s (pdf_path s p i) = None \<and> download_paper w p i s = (Inr True, s')
        \<and> download_paper w' p i s' = (r, s'')"
  then have dp: "download_paper w p i s = (Inr True, s')" by simp
  from again [OF dp] a have rs: "r = Inr True" "s'' = s'" by simp_all
  from download_paper_cases [OF dp] a
  obtain u where "filter is_fetch (net_log s') = filter is_fetch (net_log s) @ [PdfGet u]"
    by blast
  then have "length (filter is_fetch (net_log s')) = Suc (length (filter is_fetch (net_log s)))"
    by simp
  with rs show "r = Inr True" 
    and "length (filter is_fetch (net_log s'')) = Suc (length (filter is_fetch (net_log s)))"
    by simp_all
qed

theorem download_skip_idempotent_witness:
  "fst (download_paper success_world found_paper 1 start) = Inr True
   \<and> download_paper forbidden_world found_paper 1 (snd (download_paper success_world found_paper 1 start))
       = (Inr True, snd (download_paper success_world found_paper 1 start))
   \<and> length (filter is_fetch (net_log (snd (download_paper success_world found_paper 1 start)))) = 1"
proof -
  let ?d = "download_paper success_world found_paper 1 start"
  have r: "fst ?d = Inr True" by code_simp
  have d: "?d = (Inr True, snd ?d)" using r by (simp add: prod_eq_iff)
  have f: "files start (pdf_path start found_paper 1) = None"
    by (simp add: start_def init_crawler_def)
  have l: "net_log start = []" by (simp add: start_def init_crawler_def)
  note T = download_skip_idempotent [where w = success_world and p = found_paper and i = 1
      and s = start and s' = "snd ?d" and w' = forbidden_world and r = "Inr True" and s'' = "snd ?d"]
  from T d have again: "download_paper forbidden_world found_paper 1 (snd ?d) = (Inr True, snd ?d)"
    by blast
  with T d f have "length (filter is_fetch (net_log (snd ?d))) = Suc (length (filter is_fetch (net_log start)))"
    by blast
  with l have "length (filter is_fetch (net_log (snd ?d))) = 1" by simp
  with r again show ?thesis by simp
qed

text \<open>
  Claim C7 as first stated fails for a first call that does not succeed: the server
  answers 403 both times, nothing is written, and two calls perform two fetches.
\<close>

theorem download_twice_counterexample:
  "fst (download_paper forbidden_world found_paper 1 start) = Inr False
   \<and> fst (download_paper forbidden_world found_paper 1
            (snd (download_paper forbidden_world found_paper 1 start))) = Inr False
   \<and> filter is_fetch (net_log (snd (download_paper forbidden_world found_paper 1
            (snd (download_paper forbidden_world found_paper 1 start)))))
       = [PdfGet ''https://example.org/kgc.pdf'', PdfGet ''https://example.org/kgc.pdf'']"
  by code_simp

subsection \<open>A stream that breaks\<close>

text \<open>
  Claim C2, at a failing input. The connection breaks after the first chunk. The step
  returns failure with the text of the exception as the reason, as the claim says; but the
  chunk written so far stays at the target path, and the next call for the same candidate
  and run index finds the file, returns success and sends no request.
\<close>

theorem partial_file_left_behind:
  "http_get broken_stream_world 3 ''https://example.org/kgc.pdf''
     = Inr (ok_response\<lparr>chunks := [''%PDF-1.4 first''],
                         stream_error := Some (External ''Connection broken'')\<rparr>)
   \<and> fst (download_paper broken_stream_world found_paper 1 start) = Inr False
   \<and> map f_reason (failed_downloads (snd (download_paper broken_stream_world found_paper 1 start)))
       = [''Connection broken'']
   \<and> files (snd (download_paper broken_stream_world found_paper 1 start))
        (pdf_path start found_paper 1) = Some (Written [''%PDF-1.4 first''])
   \<and> fst (download_paper success_world found_paper 1
            (snd (download_paper broken_stream_world found_paper 1 start))) = Inr True
   \<and> net_log (snd (download_paper success_world found_paper 1
            (snd (download_paper broken_stream_world found_paper 1 start))))
       = net_log (snd (download_paper broken_stream_world found_paper 1 start))"
  by code_simp

subsection \<open>The reports of a run\<close>

lemma search_dblp_frame:
  "search_dblp w k v y s = (papers, s') \<Longrightarrow>
   output_dir s' = output_dir s \<and> files s' = files s \<and> failed_downloads s' = failed_downloads s"
  by (auto simp: search_dblp_def search_year_step_def Let_def send_simps split: sum.splits)

text \<open>
  Claim C3, as amended. A run that completes after finding at least one candidate has
  written \<open>all_papers.json\<close> with all the candidates found; if its failure list is not
  empty it has also written \<open>failed_downloads.json\<close> with that list and
  \<open>download_report.txt\<close> with the counts of the candidates, the successes and the
  failures. A run that finds no candidate returns without writing any file.
\<close>

theorem reports_written:
  assumes "run w k v y s = (None, s')"
    and "search_dblp w k v y s = (papers, sa)"
  shows "(papers = [] \<longrightarrow> files s' = files s)
         \<and> (papers \<noteq> [] \<longrightarrow>
              files s' (path_join (output_dir s) ''all_papers.json'') = Some (PapersJson papers)
              \<and> (failed_downloads s' \<noteq> [] \<longrightarrow>
                   files s' (path_join (output_dir s) ''failed_downloads.json'')
                     = Some (FailuresJson (failed_downloads s'))
                   \<and> files s' (path_join (output_dir s) ''download_report.txt'')
                     = Some (Written (report_lines (clock w (length (net_log s'))) papers
                                                   (failed_downloads s')))))"
proof (cases "papers = []")
  case True
  with assms have "s' = sa" by (simp add: run_def)
  with search_dblp_frame [OF assms(2)] True show ?thesis by simp
next
  case False
  obtain r sb where da: "download_all w papers 1 0 sa = (r, sb)"
    by (cases "download_all w papers 1 0 sa")
  show ?thesis
  proof (cases r)
    case (Inl e)
    with assms False da show ?thesis by (simp add: run_def)
  next
    case (Inr n)
    with assms False da have sr: "save_results w papers sb = (None, s')" by (simp add: run_def)
    from da Inr have "download_all w papers 1 0 sa = (Inr n, sb)" by simp
    from download_all_count [OF this] search_dblp_frame [OF assms(2)]
    have dir: "output_dir sb = output_dir s" by simp
    from save_results_written [OF sr] dir False show ?thesis by simp
  qed
qed

theorem reports_written_witness:
  "files (snd (run forbidden_world ''knowledge graph'' ''AAAI'' 2025 start)) ''out/all_papers.json''
     = Some (PapersJson [found_paper])
   \<and> files (snd (run forbidden_world ''knowledge graph'' ''AAAI'' 2025 start)) ''out/download_report.txt''
     \<noteq> None"
proof -
  let ?r = "run forbidden_world ''knowledge graph'' ''AAAI'' 2025 start"
  let ?q = "search_dblp forbidden_world ''knowledge graph'' ''AAAI'' 2025 start"
  have r: "fst ?r = None" by code_simp
  have q: "fst ?q = [found_paper]" by code_simp
  have n: "failed_downloads (snd ?r) \<noteq> []" by code_simp
  have p1: "path_join (output_dir start) ''all_papers.json'' = ''out/all_papers.json''" by code_simp
  have p2: "path_join (output_dir start) ''download_report.txt'' = ''out/download_report.txt''"
    by code_simp
  have r': "?r = (None, snd ?r)" using r by (simp add: prod_eq_iff)
  have q': "?q = ([found_paper], snd ?q)" using q by (simp add: prod_eq_iff)
  from reports_written [OF r' q'] n show ?thesis unfolding p1 p2 by simp
qed


text \<open>
  Claim C3 as first stated fails: a run that finds no candidate completes without writing
  \<open>all_papers.json\<close> or the report, and a run whose only download succeeds writes no
  report.
\<close>

theorem reports_counterexample:
  "(case run quiet_world ''knowledge graph'' ''AAAI'' 2025 start of
      (r, s) \<Rightarrow> r = None \<and> files s ''out/all_papers.json'' = None
                 \<and> files s ''out/download_report.txt'' = None)
   \<and> (case run success_world ''knowledge graph'' ''AAAI'' 2025 start of
      (r, s) \<Rightarrow> r = None \<and> failed_downloads s = []
                 \<and> files s ''out/all_papers.json'' = Some (PapersJson [found_paper])
                 \<and> files s ''out/download_report.txt'' = None)"
  by code_simp

end
